theory Spec2Isabelle
  imports Main "HOL-Library.Char_ord" "HOL-Library.List_Lexorder" "HOL-Library.Multiset"
begin

section \<open>Strings of the supervisor\<close>

text \<open>
  A JavaScript string is a sequence of UTF-16 code units. The model uses \<^typ>\<open>string\<close>,
  a list of 8-bit characters: it covers the strings all of whose code units are below 256
  (Latin-1), where one \<^typ>\<open>char\<close> is one code unit. Strings are compared
  lexicographically by code unit, as SQLite's BINARY collation and JavaScript's \<open><\<close> do.
\<close>

definition code_unit :: "char \<Rightarrow> nat" where
  "code_unit c = of_char c"

text \<open>The character classes of the regular expressions in \<open>config.ts\<close>:
  \<open>\w\<close> is \<open>[A-Za-z0-9_]\<close>; \<open>\s\<close>, below code unit 256, is tab, line feed,
  vertical tab, form feed, carriage return, space and the no-break space.\<close>

definition is_upper :: "char \<Rightarrow> bool" where
  "is_upper c \<longleftrightarrow> 65 \<le> code_unit c \<and> code_unit c \<le> 90"

definition is_lower :: "char \<Rightarrow> bool" where
  "is_lower c \<longleftrightarrow> 97 \<le> code_unit c \<and> code_unit c \<le> 122"

definition is_digit :: "char \<Rightarrow> bool" where
  "is_digit c \<longleftrightarrow> 48 \<le> code_unit c \<and> code_unit c \<le> 57"

definition is_word :: "char \<Rightarrow> bool" where
  "is_word c \<longleftrightarrow> is_upper c \<or> is_lower c \<or> is_digit c \<or> c = CHR ''_''"

definition is_space :: "char \<Rightarrow> bool" where
  "is_space c \<longleftrightarrow> (9 \<le> code_unit c \<and> code_unit c \<le> 13) \<or> code_unit c = 32 \<or> code_unit c = 160"

definition is_hyphen :: "char \<Rightarrow> bool" where
  "is_hyphen c \<longleftrightarrow> c = CHR ''-''"

text \<open>\<open>String.prototype.toLowerCase\<close> on one Latin-1 code unit: \<open>A-Z\<close> and the
  accented capitals \<open>0xC0-0xDE\<close> (but the multiplication sign \<open>0xD7\<close>) move up by 32.\<close>

definition toLowerCase_char :: "char \<Rightarrow> char" where
  "toLowerCase_char c =
     (if is_upper c \<or> (192 \<le> code_unit c \<and> code_unit c \<le> 222 \<and> code_unit c \<noteq> 215)
      then char_of (code_unit c + 32) else c)"

definition toLowerCase :: "string \<Rightarrow> string" where
  "toLowerCase s = map toLowerCase_char s"

section \<open>Slugification (\<open>config.ts\<close>, \<open>slugify\<close>)\<close>

text \<open>\<open>.replace(/[^\w\s-]/g, '')\<close>: every character outside the class is dropped.\<close>

definition remove_special :: "string \<Rightarrow> string" where
  "remove_special s = filter (\<lambda>c. is_word c \<or> is_space c \<or> is_hyphen c) s"

text \<open>\<open>.replace(/P+/g, '-')\<close>: every maximal run of characters of the class \<open>P\<close> becomes
  one hyphen. Used for \<open>/\s+/g\<close> and for \<open>/-+/g\<close>.\<close>

fun replace_runs :: "(char \<Rightarrow> bool) \<Rightarrow> string \<Rightarrow> string" where
  "replace_runs P [] = []"
| "replace_runs P [c] = (if P c then [CHR ''-''] else [c])"
| "replace_runs P (c # d # cs) =
     (if P c then (if P d then replace_runs P (d # cs) else CHR ''-'' # replace_runs P (d # cs))
      else c # replace_runs P (d # cs))"

text \<open>\<open>.replace(/^-|-$/g, '')\<close>: one hyphen at the start and one hyphen at the end are
  removed (a hyphen that is both is removed once).\<close>

definition trim_start :: "string \<Rightarrow> string" where
  "trim_start s = (case s of [] \<Rightarrow> [] | c # cs \<Rightarrow> if is_hyphen c then cs else s)"

definition trim_end :: "string \<Rightarrow> string" where
  "trim_end s = (if s \<noteq> [] \<and> is_hyphen (last s) then butlast s else s)"

definition trim_hyphens :: "string \<Rightarrow> string" where
  "trim_hyphens s = trim_end (trim_start s)"

definition slugify :: "string \<Rightarrow> string" where
  "slugify str =
     take 50 (trim_hyphens (replace_runs is_hyphen (replace_runs is_space
       (remove_special (toLowerCase str)))))"

text \<open>The characters a slug is made of, and the shape of a slug before truncation:
  no two hyphens in a row.\<close>

definition slug_char :: "char \<Rightarrow> bool" where
  "slug_char c \<longleftrightarrow> is_lower c \<or> is_digit c \<or> c = CHR ''_'' \<or> c = CHR ''-''"

fun no_double :: "string \<Rightarrow> bool" where
  "no_double (c # d # cs) \<longleftrightarrow> \<not> (is_hyphen c \<and> is_hyphen d) \<and> no_double (d # cs)"
| "no_double _ \<longleftrightarrow> True"

text \<open>The slug before \<open>.slice(0, 50)\<close>.\<close>

definition pre_slug :: "string \<Rightarrow> string" where
  "pre_slug str = trim_hyphens (replace_runs is_hyphen (replace_runs is_space
       (remove_special (toLowerCase str))))"

text \<open>The character class \<open>[a-z0-9-]\<close> of the specification.\<close>

definition claimed_char :: "char \<Rightarrow> bool" where
  "claimed_char c \<longleftrightarrow> is_lower c \<or> is_digit c \<or> c = CHR ''-''"


section \<open>Numbers and lines of text\<close>

text \<open>A number inside a template literal is printed in decimal, a negative one with a
  leading minus sign.\<close>

definition digit_char :: "nat \<Rightarrow> char" where
  "digit_char d = char_of (48 + d)"

fun digits_of :: "nat \<Rightarrow> string" where
  "digits_of n = (if n < 10 then [digit_char n] else digits_of (n div 10) @ [digit_char (n mod 10)])"

definition show_int :: "int \<Rightarrow> string" where
  "show_int i = (if i < 0 then CHR ''-'' # digits_of (nat (- i)) else digits_of (nat i))"

definition newline :: string where
  "newline = [CHR 0x0A]"

text \<open>\<open>Array.prototype.join\<close>.\<close>

fun join :: "string \<Rightarrow> string list \<Rightarrow> string" where
  "join sep [] = []"
| "join sep [x] = x"
| "join sep (x # y # ys) = x @ sep @ join sep (y # ys)"

section \<open>The debouncer (\<open>telegram-client.ts\<close>)\<close>

record SessionKey =
  chatId :: int
  topicId :: int

record BufferedMessage =
  sessionKey :: SessionKey
  folder :: string
  content :: string
  senderName :: string
  messageId :: int
  replyToMessageId :: "int option"
  timestamp :: int

text \<open>The arguments \<open>flushMessageBuffer\<close> passes to the message handler.\<close>

record HandlerCall =
  hc_sessionKey :: SessionKey
  hc_folder :: string
  hc_content :: string
  hc_senderName :: string
  hc_messageId :: int
  hc_replyToMessageId :: "int option"

text \<open>The module state: the buffers by buffer key, and whether a message handler is
  set. The timers of \<open>debounceTimers\<close> only decide when a flush runs and are left out.\<close>

record Debouncer =
  messageBuffers :: "string \<rightharpoonup> BufferedMessage list"
  hasHandler :: bool

definition getBufferKey :: "SessionKey \<Rightarrow> string" where
  "getBufferKey k = show_int (chatId k) @ ''_'' @ show_int (topicId k)"

definition bufferMessage :: "Debouncer \<Rightarrow> BufferedMessage \<Rightarrow> Debouncer" where
  "bufferMessage st msg =
     (let bufferKey = getBufferKey (sessionKey msg);
          buffer = (case messageBuffers st bufferKey of None \<Rightarrow> [] | Some b \<Rightarrow> b)
      in st\<lparr>messageBuffers := (messageBuffers st)(bufferKey \<mapsto> buffer @ [msg])\<rparr>)"

text \<open>\<open>messages.sort((a, b) => a.timestamp - b.timestamp)\<close>: \<open>Array.prototype.sort\<close> is
  stable, as the insertion sort \<^const>\<open>sort_key\<close> is.\<close>

definition sortByTimestamp :: "BufferedMessage list \<Rightarrow> BufferedMessage list" where
  "sortByTimestamp messages = sort_key timestamp messages"

definition combineLine :: "nat \<Rightarrow> BufferedMessage \<Rightarrow> string" where
  "combineLine n m = (if n > 1 then ''['' @ senderName m @ '']: '' else []) @ content m"

text \<open>The handler call of a flush, for a buffer that is not empty.\<close>

definition flushCall :: "BufferedMessage list \<Rightarrow> HandlerCall" where
  "flushCall buffered =
     (let messages = sortByTimestamp buffered;
          combined = join newline (map (combineLine (length messages)) messages);
          first = hd messages;
          lst = last messages
      in \<lparr>hc_sessionKey = sessionKey first,
          hc_folder = folder first,
          hc_content = combined,
          hc_senderName = (if length messages = 1 then senderName first else ''Multiple users''),
          hc_messageId = messageId lst,
          hc_replyToMessageId = replyToMessageId first\<rparr>)"

text \<open>\<open>flushMessageBuffer\<close>: nothing happens without a buffer, with an empty buffer or
  without a handler; otherwise the buffer is deleted and the handler is called.\<close>

definition flushMessageBuffer :: "Debouncer \<Rightarrow> string \<Rightarrow> Debouncer \<times> HandlerCall option" where
  "flushMessageBuffer st bufferKey =
     (case messageBuffers st bufferKey of
        None \<Rightarrow> (st, None)
      | Some buffered \<Rightarrow>
          if buffered = [] \<or> \<not> hasHandler st then (st, None)
          else (st\<lparr>messageBuffers := (messageBuffers st)(bufferKey := None)\<rparr>,
                Some (flushCall buffered)))"

text \<open>The senders of a buffer, each once.\<close>

definition senders :: "BufferedMessage list \<Rightarrow> string list" where
  "senders buffered = remdups (map senderName buffered)"

text \<open>Two messages of one sender that arrive within the debounce window.\<close>

definition alice_msg :: "string \<Rightarrow> int \<Rightarrow> int \<Rightarrow> BufferedMessage" where
  "alice_msg text mid ts =
     \<lparr>sessionKey = \<lparr>chatId = 100, topicId = 0\<rparr>, folder = ''family-chat'', content = text,
      senderName = ''Alice'', messageId = mid, replyToMessageId = None, timestamp = ts\<rparr>"

definition alice_buffer :: Debouncer where
  "alice_buffer =
     \<lparr>messageBuffers = [''100_0'' \<mapsto> [alice_msg ''hi'' 10 1000, alice_msg ''there'' 11 2000]],
      hasHandler = True\<rparr>"


section \<open>The store (\<open>db.ts\<close>)\<close>

text \<open>
  A table is the list of its rows in insertion order. The columns keep their SQL names
  behind a prefix for the table. The timestamps of messages and topics are the ISO-8601
  strings the code writes. The timestamps of tasks and run logs are modelled by the
  instant they denote, in milliseconds since the epoch: they are all written by
  \<open>toISOString\<close>, whose strings compare as their instants do.
\<close>

type_synonym instant = int

record TopicRow =
  tp_chat_id :: int
  tp_topic_id :: int
  tp_topic_name :: string
  tp_folder :: string
  tp_trigger_mode :: string
  tp_last_message_time :: "string option"

record MessageRow =
  m_id :: string
  m_chat_id :: int
  m_topic_id :: int
  m_sender_id :: int
  m_sender_name :: string
  m_content :: string
  m_type :: string
  m_timestamp :: string
  m_is_bot :: bool
  m_reply_to_message_id :: "int option"
  m_reaction_emoji :: "string option"
  m_reaction_action :: "string option"
  m_target_message_id :: "int option"
  m_agent_session_id :: "string option"

record ScheduledTask =
  st_id :: string
  st_chat_id :: int
  st_topic_id :: int
  st_folder :: string
  st_prompt :: string
  st_schedule_type :: string
  st_schedule_value :: string
  st_context_mode :: string
  st_next_run :: "instant option"
  st_last_run :: "instant option"
  st_last_result :: "string option"
  st_status :: string
  st_created_at :: instant

record TaskRunLog =
  log_task_id :: string
  log_run_at :: instant
  log_duration_ms :: int
  log_status :: string
  log_result :: "string option"
  log_error :: "string option"

record Store =
  topics :: "TopicRow list"
  messages :: "MessageRow list"
  scheduled_tasks :: "ScheduledTask list"
  task_run_logs :: "TaskRunLog list"

definition empty_store :: Store where
  "empty_store = \<lparr>topics = [], messages = [], scheduled_tasks = [], task_run_logs = []\<rparr>"

subsection \<open>Topics\<close>

definition topic_key :: "TopicRow \<Rightarrow> int \<times> int" where
  "topic_key r = (tp_chat_id r, tp_topic_id r)"

definition getTopic :: "Store \<Rightarrow> int \<Rightarrow> int \<Rightarrow> TopicRow option" where
  "getTopic db c t = find (\<lambda>r. tp_chat_id r = c \<and> tp_topic_id r = t) (topics db)"

definition getTopicByFolder :: "Store \<Rightarrow> string \<Rightarrow> TopicRow option" where
  "getTopicByFolder db f = find (\<lambda>r. tp_folder r = f) (topics db)"

text \<open>\<open>upsertTopic\<close>: \<open>INSERT ... ON CONFLICT(chat_id, topic_id) DO UPDATE\<close>. The trigger
  mode defaults to \<open>mention\<close>; a conflicting row keeps its \<open>last_message_time\<close>.\<close>

definition upsertTopic ::
  "Store \<Rightarrow> string \<Rightarrow> int \<Rightarrow> int \<Rightarrow> string \<Rightarrow> string \<Rightarrow> string option \<Rightarrow> Store" where
  "upsertTopic db now c t topicName fld triggerMode =
     (let mode = (case triggerMode of None \<Rightarrow> ''mention'' | Some m \<Rightarrow> m) in
      if getTopic db c t = None
      then db\<lparr>topics := topics db @
             [\<lparr>tp_chat_id = c, tp_topic_id = t, tp_topic_name = topicName, tp_folder = fld,
               tp_trigger_mode = mode, tp_last_message_time = Some now\<rparr>]\<rparr>
      else db\<lparr>topics := map (\<lambda>r. if tp_chat_id r = c \<and> tp_topic_id r = t
                                   then r\<lparr>tp_topic_name := topicName, tp_folder := fld,
                                           tp_trigger_mode := mode\<rparr>
                                   else r) (topics db)\<rparr>)"

definition updateTopicTimestamp :: "Store \<Rightarrow> string \<Rightarrow> int \<Rightarrow> int \<Rightarrow> Store" where
  "updateTopicTimestamp db now c t =
     db\<lparr>topics := map (\<lambda>r. if tp_chat_id r = c \<and> tp_topic_id r = t
                             then r\<lparr>tp_last_message_time := Some now\<rparr> else r) (topics db)\<rparr>"

subsection \<open>Messages\<close>

definition same_message_key :: "MessageRow \<Rightarrow> MessageRow \<Rightarrow> bool" where
  "same_message_key a b \<longleftrightarrow>
     m_chat_id a = m_chat_id b \<and> m_topic_id a = m_topic_id b \<and> m_id a = m_id b"

text \<open>\<open>INSERT OR REPLACE\<close>: a row with the primary key of the new row is deleted, then
  the new row is inserted.\<close>

definition insert_or_replace :: "MessageRow \<Rightarrow> MessageRow list \<Rightarrow> MessageRow list" where
  "insert_or_replace row rows = filter (\<lambda>r. \<not> same_message_key r row) rows @ [row]"

text \<open>\<open>storeMessage\<close>. The first two arguments are the two readings of the clock, one
  for the row and one for the topic; the type defaults to \<open>text\<close> and \<open>isBot\<close> to
  false.\<close>

definition storeMessage ::
  "Store \<Rightarrow> string \<Rightarrow> string \<Rightarrow> string \<Rightarrow> int \<Rightarrow> int \<Rightarrow> int \<Rightarrow> string \<Rightarrow> string \<Rightarrow>
   string option \<Rightarrow> bool option \<Rightarrow> int option \<Rightarrow> string option \<Rightarrow> string option \<Rightarrow>
   int option \<Rightarrow> string option \<Rightarrow> Store" where
  "storeMessage db now now_topic mid c t senderId sender text type isBot replyTo
       reactionEmoji reactionAction targetMessageId agentSessionId =
     updateTopicTimestamp
       (db\<lparr>messages := insert_or_replace
          \<lparr>m_id = mid, m_chat_id = c, m_topic_id = t, m_sender_id = senderId,
           m_sender_name = sender, m_content = text,
           m_type = (case type of None \<Rightarrow> ''text'' | Some ty \<Rightarrow> ty),
           m_timestamp = now,
           m_is_bot = (case isBot of None \<Rightarrow> False | Some b \<Rightarrow> b),
           m_reply_to_message_id = replyTo, m_reaction_emoji = reactionEmoji,
           m_reaction_action = reactionAction, m_target_message_id = targetMessageId,
           m_agent_session_id = agentSessionId\<rparr> (messages db)\<rparr>)
       now_topic c t"

text \<open>The \<open>LIKE\<close> operator of SQLite, pattern first: \<open>%\<close> matches any run of characters,
  \<open>_\<close> any one character, and every other character matches itself, the letters
  \<open>A-Z\<close> and \<open>a-z\<close> without regard to case (no \<open>case_sensitive_like\<close> pragma is set).\<close>

definition like_fold :: "char \<Rightarrow> char" where
  "like_fold c = (if is_upper c then char_of (code_unit c + 32) else c)"

fun like :: "string \<Rightarrow> string \<Rightarrow> bool" where
  "like [] s \<longleftrightarrow> s = []"
| "like (p # ps) [] \<longleftrightarrow> p = CHR ''%'' \<and> like ps []"
| "like (p # ps) (c # cs) \<longleftrightarrow>
     (if p = CHR ''%'' then like ps (c # cs) \<or> like (p # ps) cs
      else (p = CHR ''_'' \<or> like_fold p = like_fold c) \<and> like ps cs)"

record NewMessage =
  nm_id :: string
  nm_chatId :: int
  nm_topicId :: int
  nm_senderId :: int
  nm_senderName :: string
  nm_content :: string
  nm_timestamp :: string

definition toNewMessage :: "MessageRow \<Rightarrow> NewMessage" where
  "toNewMessage r =
     \<lparr>nm_id = m_id r, nm_chatId = m_chat_id r, nm_topicId = m_topic_id r,
      nm_senderId = m_sender_id r, nm_senderName = m_sender_name r,
      nm_content = m_content r, nm_timestamp = m_timestamp r\<rparr>"

text \<open>The \<open>WHERE\<close> clause of \<open>getMessagesSince\<close>.\<close>

definition since_where :: "int \<Rightarrow> int \<Rightarrow> string \<Rightarrow> string \<Rightarrow> MessageRow \<Rightarrow> bool" where
  "since_where c t sinceTimestamp botName r \<longleftrightarrow>
     m_chat_id r = c \<and> m_topic_id r = t \<and> m_timestamp r > sinceTimestamp \<and>
     m_type r = ''text'' \<and> \<not> like (botName @ '':%'') (m_content r)"

text \<open>\<open>ORDER BY timestamp\<close>; rows of one timestamp are taken in insertion order.\<close>

definition getMessagesSince :: "Store \<Rightarrow> int \<Rightarrow> int \<Rightarrow> string \<Rightarrow> string \<Rightarrow> NewMessage list" where
  "getMessagesSince db c t sinceTimestamp botName =
     map toNewMessage
       (sort_key m_timestamp (filter (since_where c t sinceTimestamp botName) (messages db)))"


text \<open>The rows of one primary key, and the row one call of \<open>storeMessage\<close> writes.\<close>

definition key_is :: "int \<Rightarrow> int \<Rightarrow> string \<Rightarrow> MessageRow \<Rightarrow> bool" where
  "key_is c t mid r \<longleftrightarrow> m_chat_id r = c \<and> m_topic_id r = t \<and> m_id r = mid"

definition stored_row ::
  "string \<Rightarrow> string \<Rightarrow> int \<Rightarrow> int \<Rightarrow> int \<Rightarrow> string \<Rightarrow> string \<Rightarrow>
   string option \<Rightarrow> bool option \<Rightarrow> int option \<Rightarrow> string option \<Rightarrow> string option \<Rightarrow>
   int option \<Rightarrow> string option \<Rightarrow> MessageRow" where
  "stored_row now mid c t senderId sender text type isBot replyTo
       reactionEmoji reactionAction targetMessageId agentSessionId =
          \<lparr>m_id = mid, m_chat_id = c, m_topic_id = t, m_sender_id = senderId,
           m_sender_name = sender, m_content = text,
           m_type = (case type of None \<Rightarrow> ''text'' | Some ty \<Rightarrow> ty),
           m_timestamp = now,
           m_is_bot = (case isBot of None \<Rightarrow> False | Some b \<Rightarrow> b),
           m_reply_to_message_id = replyTo, m_reaction_emoji = reactionEmoji,
           m_reaction_action = reactionAction, m_target_message_id = targetMessageId,
           m_agent_session_id = agentSessionId\<rparr>"

text \<open>One and the same call of \<open>storeMessage\<close>, made when the clock reads \<open>now\<close>.\<close>

definition hello_twice :: "string \<Rightarrow> Store \<Rightarrow> Store" where
  "hello_twice now db =
     storeMessage db now now ''42'' 100 0 7 ''Alice'' ''hello'' (Some ''text'') (Some False)
       None None None None None"


section \<open>The registry and the trigger (\<open>types.ts\<close>, \<open>session-manager.ts\<close>, \<open>telegram-client.ts\<close>)\<close>

record AdditionalMount =
  am_hostPath :: string
  am_containerPath :: string
  am_readonly :: "bool option"

record ContainerConfig =
  additionalMounts :: "AdditionalMount list option"
  cc_timeout :: "int option"
  cc_env :: "(string \<times> string) list option"

record TriggerConfig =
  mode :: string
  mentionPattern :: "string option"

record RegisteredChat =
  rc_chatId :: int
  rc_chatType :: string
  rc_chatTitle :: string
  defaultTrigger :: TriggerConfig
  addedAt :: string
  addedBy :: "int option"
  containerConfig :: "ContainerConfig option"

text \<open>The map \<open>registeredChats\<close>, by chat id.\<close>

type_synonym Registry = "int \<rightharpoonup> RegisteredChat"

definition getRegisteredChat :: "Registry \<Rightarrow> int \<Rightarrow> RegisteredChat option" where
  "getRegisteredChat reg c = reg c"

definition isChatRegistered :: "Registry \<Rightarrow> int \<Rightarrow> bool" where
  "isChatRegistered reg c \<longleftrightarrow> reg c \<noteq> None"

definition MAIN_FOLDER :: string where
  "MAIN_FOLDER = ''main''"

definition GLOBAL_FOLDER :: string where
  "GLOBAL_FOLDER = ''global''"

definition isMainFolder :: "string \<Rightarrow> bool" where
  "isMainFolder fld \<longleftrightarrow> fld = MAIN_FOLDER"

text \<open>\<open>String.prototype.startsWith\<close> and \<open>String.prototype.includes\<close>, the text first.\<close>

fun starts_with :: "string \<Rightarrow> string \<Rightarrow> bool" where
  "starts_with s [] \<longleftrightarrow> True"
| "starts_with [] (p # ps) \<longleftrightarrow> False"
| "starts_with (c # cs) (p # ps) \<longleftrightarrow> c = p \<and> starts_with cs ps"

fun str_includes :: "string \<Rightarrow> string \<Rightarrow> bool" where
  "str_includes [] p \<longleftrightarrow> starts_with [] p"
| "str_includes (c # cs) p \<longleftrightarrow> starts_with (c # cs) p \<or> str_includes cs p"

text \<open>\<open>checkTrigger\<close>; the first argument is \<open>ASSISTANT_NAME\<close>. A pattern that is
  missing or empty is replaced by \<open>@\<close> and the assistant's name.\<close>

definition mention_pattern :: "string \<Rightarrow> TriggerConfig \<Rightarrow> string" where
  "mention_pattern assistant trigger =
     (case mentionPattern trigger of
        None \<Rightarrow> CHR ''@'' # assistant
      | Some p \<Rightarrow> if p = [] then CHR ''@'' # assistant else p)"

definition checkTrigger :: "string \<Rightarrow> string \<Rightarrow> TriggerConfig \<Rightarrow> string \<Rightarrow> bool" where
  "checkTrigger assistant text trigger fld =
     (if isMainFolder fld then True
      else if mode trigger = ''always'' then True
      else if mode trigger = ''disabled'' then False
      else str_includes (toLowerCase text) (toLowerCase (mention_pattern assistant trigger)))"

section \<open>Prompt assembly (\<open>index.ts\<close>, \<open>handleMessage\<close>)\<close>

text \<open>\<open>s.replace(/c/g, r)\<close> for one character \<open>c\<close>, and the four passes of
  \<open>escapeXml\<close> in their order.\<close>

definition replaceAll :: "char \<Rightarrow> string \<Rightarrow> string \<Rightarrow> string" where
  "replaceAll c r s = concat (map (\<lambda>x. if x = c then r else [x]) s)"

definition dquote :: char where
  "dquote = CHR 0x22"

definition escapeXml :: "string \<Rightarrow> string" where
  "escapeXml s =
     replaceAll dquote ''&quot;'' (replaceAll CHR ''>'' ''&gt;''
       (replaceAll CHR ''<'' ''&lt;'' (replaceAll CHR ''&'' ''&amp;'' s)))"

definition messageLine :: "NewMessage \<Rightarrow> string" where
  "messageLine m =
     ''<message sender='' @ [dquote] @ escapeXml (nm_senderName m) @ [dquote] @
     '' time='' @ [dquote] @ nm_timestamp m @ [dquote] @ ''>'' @
     escapeXml (nm_content m) @ ''</message>''"

definition buildPrompt :: "NewMessage list \<Rightarrow> string" where
  "buildPrompt missedMessages =
     ''<messages>'' @ newline @ join newline (map messageLine missedMessages) @ newline @
     ''</messages>''"

text \<open>
  \<open>lastAgentTimestamp\<close> is a plain object read with \<open>lastAgentTimestamp[folder]\<close>. The
  map below holds its own properties. A name that is not among them is looked up in
  \<open>Object.prototype\<close>, where the names listed are bound to functions and, for
  \<open>__proto__\<close>, to the prototype itself; any other name reads as \<open>undefined\<close>.
\<close>

definition object_prototype_names :: "string list" where
  "object_prototype_names =
     [''constructor'', ''__defineGetter__'', ''__defineSetter__'', ''hasOwnProperty'',
      ''__lookupGetter__'', ''__lookupSetter__'', ''isPrototypeOf'', ''propertyIsEnumerable'',
      ''toString'', ''valueOf'', ''__proto__'', ''toLocaleString'']"

datatype PropertyValue = Undefined | StringValue string | InheritedValue

definition getProperty :: "(string \<rightharpoonup> string) \<Rightarrow> string \<Rightarrow> PropertyValue" where
  "getProperty obj name =
     (case obj name of
        Some v \<Rightarrow> StringValue v
      | None \<Rightarrow> if name \<in> set object_prototype_names then InheritedValue else Undefined)"

text \<open>Why \<open>handleMessage\<close> hands no prompt to \<open>runAgent\<close>: the chat is not registered
  and it returns; or the value read for the folder is an inherited function or object,
  which \<open>||\<close> keeps and the statement of \<open>getMessagesSince\<close> cannot bind, so the call
  throws.\<close>

datatype NoPrompt = ChatNotRegistered | BindThrows

text \<open>The prompt \<open>handleMessage\<close> hands to \<open>runAgent\<close>. The arguments are the
  registry, the own properties of \<open>lastAgentTimestamp\<close>, the store and
  \<open>ASSISTANT_NAME\<close>; \<open>undefined\<close> and the empty string are replaced by the empty
  string.\<close>

definition handleMessagePrompt ::
  "Registry \<Rightarrow> (string \<rightharpoonup> string) \<Rightarrow> Store \<Rightarrow> string \<Rightarrow> SessionKey \<Rightarrow> string \<Rightarrow> NoPrompt + string" where
  "handleMessagePrompt reg lastAgentTimestamp db assistant key fld =
     (case getRegisteredChat reg (chatId key) of
        None \<Rightarrow> Inl ChatNotRegistered
      | Some registeredChat \<Rightarrow>
          (case getProperty lastAgentTimestamp fld of
             InheritedValue \<Rightarrow> Inl BindThrows
           | Undefined \<Rightarrow>
               Inr (buildPrompt (getMessagesSince db (chatId key) (topicId key) [] assistant))
           | StringValue sinceTimestamp \<Rightarrow>
               Inr (buildPrompt
                      (getMessagesSince db (chatId key) (topicId key) sinceTimestamp assistant))))"

text \<open>The input \<open>runAgent\<close> builds for the worker; \<open>sessions\<close> is the map from folder to
  session id.\<close>

record ContainerInput =
  ci_prompt :: string
  ci_sessionId :: "string option"
  ci_folder :: string
  ci_sessionKey :: string
  ci_isMain :: bool
  ci_isScheduledTask :: "bool option"
  ci_chatType :: "string option"

definition sessionKeyToString :: "SessionKey \<Rightarrow> string" where
  "sessionKeyToString k = show_int (chatId k) @ ''_'' @ show_int (topicId k)"

definition runAgentInput ::
  "(string \<rightharpoonup> string) \<Rightarrow> string \<Rightarrow> RegisteredChat \<Rightarrow> SessionKey \<Rightarrow> string \<Rightarrow> ContainerInput" where
  "runAgentInput sessions fld registeredChat key prompt =
     \<lparr>ci_prompt = prompt, ci_sessionId = sessions fld, ci_folder = fld,
      ci_sessionKey = sessionKeyToString key, ci_isMain = isMainFolder fld,
      ci_isScheduledTask = None, ci_chatType = Some (rc_chatType registeredChat)\<rparr>"




text \<open>The specification's first scenario: the chat 100 is registered, and a user has
  typed a message that starts with the assistant's name in lower case and mentions
  the assistant.\<close>

definition family_chat :: RegisteredChat where
  "family_chat =
     \<lparr>rc_chatId = 100, rc_chatType = ''group'', rc_chatTitle = ''Family Chat'',
      defaultTrigger = \<lparr>mode = ''mention'', mentionPattern = None\<rparr>,
      addedAt = ''2026-01-01T00:00:00.000Z'', addedBy = None, containerConfig = None\<rparr>"

definition family_registry :: Registry where
  "family_registry = [100 \<mapsto> family_chat]"


definition plain_store :: Store where
  "plain_store =
     storeMessage empty_store ''2026-01-31T10:00:00.000Z'' ''2026-01-31T10:00:00.000Z''
       ''42'' 100 0 7 ''Alice'' ''a < b'' (Some ''text'') (Some False)
       None None None None None"


section \<open>Scheduled tasks (\<open>db.ts\<close>, \<open>task-scheduler.ts\<close>)\<close>

subsection \<open>The tasks table\<close>

definition getTaskById :: "Store \<Rightarrow> string \<Rightarrow> ScheduledTask option" where
  "getTaskById db tid = find (\<lambda>t. st_id t = tid) (scheduled_tasks db)"

text \<open>\<open>createTask\<close> is a plain \<open>INSERT\<close>: a task whose id is taken is refused (the
  statement throws) and the table stays as it is.\<close>

definition createTask :: "Store \<Rightarrow> ScheduledTask \<Rightarrow> Store option" where
  "createTask db task =
     (if getTaskById db (st_id task) \<noteq> None then None
      else Some (db\<lparr>scheduled_tasks := scheduled_tasks db @
             [task\<lparr>st_context_mode :=
                     (if st_context_mode task = [] then ''isolated'' else st_context_mode task),
                   st_last_run := None, st_last_result := None\<rparr>]\<rparr>))"

text \<open>The fields \<open>updateTask\<close> may set; a field that is \<open>undefined\<close> is left alone, and
  \<open>nextRun\<close> may be set to \<open>null\<close>.\<close>

record TaskUpdates =
  u_prompt :: "string option"
  u_scheduleType :: "string option"
  u_scheduleValue :: "string option"
  u_nextRun :: "instant option option"
  u_status :: "string option"

definition apply_updates :: "TaskUpdates \<Rightarrow> ScheduledTask \<Rightarrow> ScheduledTask" where
  "apply_updates u t =
     t\<lparr>st_prompt := (case u_prompt u of None \<Rightarrow> st_prompt t | Some v \<Rightarrow> v),
       st_schedule_type := (case u_scheduleType u of None \<Rightarrow> st_schedule_type t | Some v \<Rightarrow> v),
       st_schedule_value := (case u_scheduleValue u of None \<Rightarrow> st_schedule_value t | Some v \<Rightarrow> v),
       st_next_run := (case u_nextRun u of None \<Rightarrow> st_next_run t | Some v \<Rightarrow> v),
       st_status := (case u_status u of None \<Rightarrow> st_status t | Some v \<Rightarrow> v)\<rparr>"

definition updateTask :: "Store \<Rightarrow> string \<Rightarrow> TaskUpdates \<Rightarrow> Store" where
  "updateTask db tid u =
     db\<lparr>scheduled_tasks := map (\<lambda>t. if st_id t = tid then apply_updates u t else t)
                               (scheduled_tasks db)\<rparr>"

definition deleteTask :: "Store \<Rightarrow> string \<Rightarrow> Store" where
  "deleteTask db tid =
     db\<lparr>task_run_logs := filter (\<lambda>l. log_task_id l \<noteq> tid) (task_run_logs db),
        scheduled_tasks := filter (\<lambda>t. st_id t \<noteq> tid) (scheduled_tasks db)\<rparr>"

text \<open>\<open>getDueTasks\<close>; the argument \<open>now\<close> is the reading of the clock.\<close>

definition is_due :: "instant \<Rightarrow> ScheduledTask \<Rightarrow> bool" where
  "is_due now t \<longleftrightarrow>
     st_status t = ''active'' \<and> (case st_next_run t of None \<Rightarrow> False | Some n \<Rightarrow> n \<le> now)"

definition next_run_key :: "ScheduledTask \<Rightarrow> instant" where
  "next_run_key t = (case st_next_run t of None \<Rightarrow> 0 | Some n \<Rightarrow> n)"

definition getDueTasks :: "Store \<Rightarrow> instant \<Rightarrow> ScheduledTask list" where
  "getDueTasks db now = sort_key next_run_key (filter (is_due now) (scheduled_tasks db))"

definition updateTaskAfterRun ::
  "Store \<Rightarrow> instant \<Rightarrow> string \<Rightarrow> instant option \<Rightarrow> string \<Rightarrow> Store" where
  "updateTaskAfterRun db now tid nextRun lastResult =
     db\<lparr>scheduled_tasks :=
          map (\<lambda>t. if st_id t = tid
                    then t\<lparr>st_next_run := nextRun, st_last_run := Some now,
                           st_last_result := Some lastResult,
                           st_status := (if nextRun = None then ''completed'' else st_status t)\<rparr>
                    else t)
              (scheduled_tasks db)\<rparr>"

definition logTaskRun :: "Store \<Rightarrow> TaskRunLog \<Rightarrow> Store" where
  "logTaskRun db l = db\<lparr>task_run_logs := task_run_logs db @ [l]\<rparr>"

subsection \<open>One run of a task\<close>

record ContainerOutput =
  co_status :: string
  co_result :: "string option"
  co_newSessionId :: "string option"
  co_error :: "string option"

text \<open>What the call of the worker pool does: it returns an output or throws.\<close>

datatype RunResult = Returned ContainerOutput | Threw string

text \<open>What one run reads from outside: the worker's answer and the readings of the
  clock, in the order the code takes them (\<open>startTime\<close>, the end of the run for the
  duration, the \<open>runAt\<close> of the log row, the current date of the schedule computation,
  and the \<open>now\<close> of \<open>updateTaskAfterRun\<close>).\<close>

record RunEnv =
  env_output :: RunResult
  clk_start :: instant
  clk_end :: instant
  clk_log :: instant
  clk_next :: instant
  clk_update :: instant

record SchedulerDependencies =
  deps_registry :: Registry
  deps_sessions :: "string \<rightharpoonup> string"

text \<open>A string or \<open>null\<close> in a condition: \<open>null\<close> and the empty string are false.\<close>

definition truthy :: "string option \<Rightarrow> bool" where
  "truthy s \<longleftrightarrow> s \<noteq> None \<and> s \<noteq> Some []"

definition or_else :: "string option \<Rightarrow> string \<Rightarrow> string" where
  "or_else s d = (case s of None \<Rightarrow> d | Some v \<Rightarrow> if v = [] then d else v)"

text \<open>\<open>parseInt(s, 10)\<close>: white space is skipped, a sign is read, then the decimal
  digits up to the first other character; without a digit the result is \<open>NaN\<close>.\<close>

definition digit_value :: "char \<Rightarrow> int" where
  "digit_value c = int (code_unit c) - 48"

definition parseInt10 :: "string \<Rightarrow> int option" where
  "parseInt10 s =
     (let t = dropWhile is_space s;
          neg = (t \<noteq> [] \<and> hd t = CHR ''-'');
          u = (if t \<noteq> [] \<and> (hd t = CHR ''-'' \<or> hd t = CHR ''+'') then tl t else t);
          ds = takeWhile is_digit u
      in if ds = [] then None
         else Some ((if neg then -1 else 1) * foldl (\<lambda>a c. 10 * a + digit_value c) 0 ds))"

text \<open>The \<open>error\<close> and the \<open>result\<close> of a run, the row of the run log, and the summary
  stored as \<open>last_result\<close>.\<close>

definition run_error :: "RunResult \<Rightarrow> string option" where
  "run_error r =
     (case r of
        Threw msg \<Rightarrow> Some msg
      | Returned output \<Rightarrow>
          if co_status output = ''error''
          then Some (or_else (co_error output) ''Unknown error'') else None)"

definition run_result :: "RunResult \<Rightarrow> string option" where
  "run_result r =
     (case r of
        Threw msg \<Rightarrow> None
      | Returned output \<Rightarrow> if co_status output = ''error'' then None else co_result output)"

definition run_log :: "ScheduledTask \<Rightarrow> RunEnv \<Rightarrow> TaskRunLog" where
  "run_log task env =
     \<lparr>log_task_id = st_id task, log_run_at = clk_log env,
      log_duration_ms = clk_end env - clk_start env,
      log_status = (if truthy (run_error (env_output env)) then ''error'' else ''success''),
      log_result = run_result (env_output env), log_error = run_error (env_output env)\<rparr>"

definition resultSummary :: "string option \<Rightarrow> string option \<Rightarrow> string" where
  "resultSummary error result =
     (if truthy error then ''Error: '' @ the error
      else if truthy result then take 200 (the result) else ''Completed'')"

text \<open>The input of the worker for a scheduled run.\<close>

definition task_input ::
  "SchedulerDependencies \<Rightarrow> RegisteredChat \<Rightarrow> ScheduledTask \<Rightarrow> ContainerInput" where
  "task_input deps registeredChat task =
     \<lparr>ci_prompt = st_prompt task,
      ci_sessionId = (if st_context_mode task = ''group''
                      then deps_sessions deps (st_folder task) else None),
      ci_folder = st_folder task,
      ci_sessionKey = sessionKeyToString \<lparr>chatId = st_chat_id task, topicId = st_topic_id task\<rparr>,
      ci_isMain = (st_folder task = MAIN_FOLDER), ci_isScheduledTask = Some True,
      ci_chatType = Some (rc_chatType registeredChat)\<rparr>"

text \<open>How a run ended: the chat was not registered and the worker never ran; the run
  and the update of the task completed; or the schedule computation threw after the
  run.\<close>

datatype RunTaskResult = NotRegistered | Completed ContainerInput | Thrown ContainerInput

text \<open>
  \<open>runTask\<close>. The first two arguments stand for what the code takes from outside the
  repository: \<open>cronNext e tz d\<close> is \<open>CronExpressionParser.parse(e, {tz}).next()\<close> with the
  current date \<open>d\<close>, and nothing when the expression does not parse; \<open>TIMEZONE\<close> is the
  configured time zone. The snapshot file written for the worker is left out.
\<close>

definition runTask ::
  "(string \<Rightarrow> string \<Rightarrow> instant \<Rightarrow> instant option) \<Rightarrow> string \<Rightarrow> SchedulerDependencies \<Rightarrow>
   RunEnv \<Rightarrow> Store \<Rightarrow> ScheduledTask \<Rightarrow> Store \<times> RunTaskResult" where
  "runTask cronNext TIMEZONE deps env db task =
     (case getRegisteredChat (deps_registry deps) (st_chat_id task) of
        None \<Rightarrow>
          (logTaskRun db
             \<lparr>log_task_id = st_id task, log_run_at = clk_log env,
              log_duration_ms = clk_end env - clk_start env, log_status = ''error'',
              log_result = None,
              log_error = Some (''Chat not registered: '' @ show_int (st_chat_id task))\<rparr>,
           NotRegistered)
      | Some registeredChat \<Rightarrow>
          let input = task_input deps registeredChat task;
              db1 = logTaskRun db (run_log task env);
              summary = resultSummary (run_error (env_output env)) (run_result (env_output env))
          in if st_schedule_type task = ''cron''
             then (case cronNext (st_schedule_value task) TIMEZONE (clk_next env) of
                     None \<Rightarrow> (db1, Thrown input)
                   | Some n \<Rightarrow>
                       (updateTaskAfterRun db1 (clk_update env) (st_id task) (Some n) summary,
                        Completed input))
             else if st_schedule_type task = ''interval''
             then (case parseInt10 (st_schedule_value task) of
                     None \<Rightarrow> (db1, Thrown input)
                   | Some ms \<Rightarrow>
                       (updateTaskAfterRun db1 (clk_update env) (st_id task)
                          (Some (clk_next env + ms)) summary,
                        Completed input))
             else (updateTaskAfterRun db1 (clk_update env) (st_id task) None summary,
                   Completed input))"

subsection \<open>One tick of the scheduler loop\<close>

text \<open>
  The body of \<open>loop\<close>: the due tasks are taken in order, each is read again and skipped
  unless it is still active, and run. An exception of \<open>runTask\<close> ends the tick. The
  result is the store and the ids of the tasks handed to \<open>runTask\<close>; \<open>env\<close> gives, by
  task id, what that run reads from outside.
\<close>

fun runDue ::
  "(string \<Rightarrow> string \<Rightarrow> instant \<Rightarrow> instant option) \<Rightarrow> string \<Rightarrow> SchedulerDependencies \<Rightarrow>
   (string \<Rightarrow> RunEnv) \<Rightarrow> Store \<Rightarrow> ScheduledTask list \<Rightarrow> Store \<times> string list" where
  "runDue cronNext TIMEZONE deps env db [] = (db, [])"
| "runDue cronNext TIMEZONE deps env db (task # rest) =
     (case getTaskById db (st_id task) of
        None \<Rightarrow> runDue cronNext TIMEZONE deps env db rest
      | Some currentTask \<Rightarrow>
          if st_status currentTask \<noteq> ''active''
          then runDue cronNext TIMEZONE deps env db rest
          else (case runTask cronNext TIMEZONE deps (env (st_id task)) db currentTask of
                  (db1, Thrown input) \<Rightarrow> (db1, [st_id task])
                | (db1, r) \<Rightarrow>
                    (case runDue cronNext TIMEZONE deps env db1 rest of
                       (db2, ids) \<Rightarrow> (db2, st_id task # ids))))"

definition schedulerTick ::
  "(string \<Rightarrow> string \<Rightarrow> instant \<Rightarrow> instant option) \<Rightarrow> string \<Rightarrow> SchedulerDependencies \<Rightarrow>
   (string \<Rightarrow> RunEnv) \<Rightarrow> instant \<Rightarrow> Store \<Rightarrow> Store \<times> string list" where
  "schedulerTick cronNext TIMEZONE deps env now db =
     runDue cronNext TIMEZONE deps env db (getDueTasks db now)"


subsection \<open>What happens to the tasks table after a run\<close>

text \<open>
  The operations of the supervisor on the tasks table: a tick of the scheduler, and
  the task actions of the mailbox (\<open>pause_task\<close>, \<open>resume_task\<close>, \<open>cancel_task\<close>,
  \<open>schedule_task\<close>). None of them assigns \<open>next_run\<close> to an existing task but
  \<open>updateTaskAfterRun\<close>.
\<close>

datatype TaskOp =
    Tick instant SchedulerDependencies "string \<Rightarrow> RunEnv"
  | Pause string
  | Resume string
  | Cancel string
  | Schedule ScheduledTask

definition status_update :: "string \<Rightarrow> TaskUpdates" where
  "status_update s =
     \<lparr>u_prompt = None, u_scheduleType = None, u_scheduleValue = None, u_nextRun = None,
      u_status = Some s\<rparr>"

text \<open>The store after a list of operations, and the ids of the tasks the ticks among
  them have run, in order.\<close>

fun applyOps ::
  "(string \<Rightarrow> string \<Rightarrow> instant \<Rightarrow> instant option) \<Rightarrow> string \<Rightarrow> Store \<Rightarrow> TaskOp list \<Rightarrow>
   Store \<times> string list" where
  "applyOps cronNext TIMEZONE db [] = (db, [])"
| "applyOps cronNext TIMEZONE db (Tick now deps env # ops) =
     (case schedulerTick cronNext TIMEZONE deps env now db of
        (db1, ids) \<Rightarrow>
          (case applyOps cronNext TIMEZONE db1 ops of (db2, later) \<Rightarrow> (db2, ids @ later)))"
| "applyOps cronNext TIMEZONE db (Pause tid # ops) =
     applyOps cronNext TIMEZONE (updateTask db tid (status_update ''paused'')) ops"
| "applyOps cronNext TIMEZONE db (Resume tid # ops) =
     applyOps cronNext TIMEZONE (updateTask db tid (status_update ''active'')) ops"
| "applyOps cronNext TIMEZONE db (Cancel tid # ops) =
     applyOps cronNext TIMEZONE (deleteTask db tid) ops"
| "applyOps cronNext TIMEZONE db (Schedule task # ops) =
     applyOps cronNext TIMEZONE
       (case createTask db task of None \<Rightarrow> db | Some db1 \<Rightarrow> db1) ops"

text \<open>No operation of the list schedules a new task under the id \<open>tid\<close>.\<close>

fun schedules :: "string \<Rightarrow> TaskOp \<Rightarrow> bool" where
  "schedules tid (Schedule task) \<longleftrightarrow> st_id task = tid"
| "schedules tid _ \<longleftrightarrow> False"

definition never_rescheduled :: "string \<Rightarrow> TaskOp list \<Rightarrow> bool" where
  "never_rescheduled tid ops \<longleftrightarrow> \<not> list_ex (schedules tid) ops"

text \<open>No row of the id \<open>tid\<close> has a next run.\<close>

definition no_next_run :: "string \<Rightarrow> Store \<Rightarrow> bool" where
  "no_next_run tid db \<longleftrightarrow> list_all (\<lambda>t. st_id t \<noteq> tid \<or> st_next_run t = None) (scheduled_tasks db)"

text \<open>What the cron library promises: the date it returns is the first occurrence of
  the expression, in the time zone, strictly after the current date. The occurrences
  are those of a predicate \<open>occurs\<close>.\<close>

definition first_after ::
  "(string \<Rightarrow> string \<Rightarrow> instant \<Rightarrow> bool) \<Rightarrow> string \<Rightarrow> string \<Rightarrow> instant \<Rightarrow> instant \<Rightarrow> bool" where
  "first_after occurs e tz d n \<longleftrightarrow>
     d < n \<and> occurs e tz n \<and> (\<forall>u. d < u \<and> u < n \<longrightarrow> \<not> occurs e tz u)"

definition cron_contract ::
  "(string \<Rightarrow> string \<Rightarrow> instant \<Rightarrow> bool) \<Rightarrow> (string \<Rightarrow> string \<Rightarrow> instant \<Rightarrow> instant option) \<Rightarrow> bool" where
  "cron_contract occurs cronNext \<longleftrightarrow>
     (\<forall>e tz d n. cronNext e tz d = Some n \<longrightarrow> first_after occurs e tz d n)"

text \<open>Examples: a parser that knows the expression \<open>* * * * *\<close> only, whose occurrences
  are the full minutes; a task that runs once and a task that runs every minute, both
  of the chat 100; a worker that answers \<open>done\<close>.\<close>

definition minute_occurs :: "string \<Rightarrow> string \<Rightarrow> instant \<Rightarrow> bool" where
  "minute_occurs e tz t \<longleftrightarrow> e = ''* * * * *'' \<and> t mod 60000 = 0"

definition minute_next :: "string \<Rightarrow> string \<Rightarrow> instant \<Rightarrow> instant option" where
  "minute_next e tz d = (if e = ''* * * * *'' then Some ((d div 60000 + 1) * 60000) else None)"

definition example_task :: "string \<Rightarrow> string \<Rightarrow> ScheduledTask" where
  "example_task ty v =
     \<lparr>st_id = ''task-1'', st_chat_id = 100, st_topic_id = 0, st_folder = ''family-chat'',
      st_prompt = ''say hello'', st_schedule_type = ty, st_schedule_value = v,
      st_context_mode = ''isolated'', st_next_run = Some 1000, st_last_run = None,
      st_last_result = None, st_status = ''active'', st_created_at = 0\<rparr>"

definition example_store :: "string \<Rightarrow> string \<Rightarrow> Store" where
  "example_store ty v = empty_store\<lparr>scheduled_tasks := [example_task ty v]\<rparr>"

definition example_env :: RunEnv where
  "example_env =
     \<lparr>env_output = Returned \<lparr>co_status = ''success'', co_result = Some ''done'',
                              co_newSessionId = None, co_error = None\<rparr>,
      clk_start = 2000, clk_end = 61000, clk_log = 61001, clk_next = 61002, clk_update = 61003\<rparr>"

text \<open>A run that returns one millisecond before a full minute; the schedule
  computation reads the clock at the full minute.\<close>

definition late_env :: RunEnv where
  "late_env =
     \<lparr>env_output = Returned \<lparr>co_status = ''success'', co_result = Some ''done'',
                              co_newSessionId = None, co_error = None\<rparr>,
      clk_start = 2000, clk_end = 59999, clk_log = 60000, clk_next = 60000, clk_update = 60001\<rparr>"

definition registered_deps :: SchedulerDependencies where
  "registered_deps = \<lparr>deps_registry = family_registry, deps_sessions = Map.empty\<rparr>"

definition unregistered_deps :: SchedulerDependencies where
  "unregistered_deps = \<lparr>deps_registry = Map.empty, deps_sessions = Map.empty\<rparr>"


section \<open>The mailbox: message actions (\<open>index.ts\<close>, \<open>startIpcWatcher\<close>)\<close>

text \<open>The fields of a file of the \<open>messages\<close> directory that the supervisor reads; a
  field that is missing is \<open>None\<close>.\<close>

record IpcMessageData =
  ipc_type :: string
  ipc_chatId :: "int option"
  ipc_topicId :: "int option"
  ipc_text :: "string option"
  ipc_messageId :: "int option"
  ipc_emoji :: "string option"

text \<open>What the supervisor does for one file: a message or a reaction sent to the chat
  platform, a line of the log, the removal of the file.\<close>

datatype IpcEffect =
    TelegramSendMessage int int string
  | ReactToMessage int int string
  | LogInfo string
  | LogWarn string
  | Unlink

text \<open>A number in a condition: \<open>undefined\<close> and 0 are false.\<close>

definition truthy_num :: "int option \<Rightarrow> bool" where
  "truthy_num n \<longleftrightarrow> n \<noteq> None \<and> n \<noteq> Some 0"

text \<open>
  The body of the loop over the message files of the workspace \<open>sourceFolder\<close>, after
  the file is parsed; the first argument is \<open>ASSISTANT_NAME\<close>. The calls of the chat
  platform are taken to succeed.
\<close>

definition processIpcMessage :: "string \<Rightarrow> Registry \<Rightarrow> string \<Rightarrow> IpcMessageData \<Rightarrow> IpcEffect list" where
  "processIpcMessage assistant reg sourceFolder data =
     (let isMain = isMainFolder sourceFolder in
      if ipc_type data = ''message'' \<and> ipc_chatId data \<noteq> None \<and> truthy (ipc_text data)
      then
        (let targetChat = getRegisteredChat reg (the (ipc_chatId data)) in
         if isMain \<or> (targetChat \<noteq> None \<and> sourceFolder = MAIN_FOLDER)
         then [TelegramSendMessage (the (ipc_chatId data))
                 (case ipc_topicId data of None \<Rightarrow> 0 | Some t \<Rightarrow> t)
                 (assistant @ '': '' @ the (ipc_text data)),
               LogInfo ''IPC message sent'', Unlink]
         else [LogWarn ''Unauthorized IPC message attempt blocked'', Unlink])
      else if ipc_type data = ''reaction'' \<and> ipc_chatId data \<noteq> None \<and>
              truthy_num (ipc_messageId data) \<and> truthy (ipc_emoji data)
      then
        (let targetChat = getRegisteredChat reg (the (ipc_chatId data)) in
         if isMain \<or> targetChat \<noteq> None
         then [ReactToMessage (the (ipc_chatId data)) (the (ipc_messageId data))
                 (the (ipc_emoji data)),
               LogInfo ''IPC reaction sent'', Unlink]
         else [LogWarn ''Unauthorized IPC reaction attempt blocked'', Unlink])
      else [Unlink])"

text \<open>The egress of a list of effects.\<close>

fun is_egress :: "IpcEffect \<Rightarrow> bool" where
  "is_egress (TelegramSendMessage c t s) \<longleftrightarrow> True"
| "is_egress (ReactToMessage c m e) \<longleftrightarrow> True"
| "is_egress _ \<longleftrightarrow> False"

text \<open>The authorization of the specification: the source workspace is \<open>main\<close>, or it
  owns a registered chat of the target id, that is, the chat is registered and a topic
  of the chat has the workspace as its folder.\<close>

definition spec_authorized :: "Store \<Rightarrow> Registry \<Rightarrow> string \<Rightarrow> int \<Rightarrow> bool" where
  "spec_authorized db reg sourceFolder c \<longleftrightarrow>
     sourceFolder = MAIN_FOLDER \<or>
     (isChatRegistered reg c \<and>
      list_ex (\<lambda>r. tp_folder r = sourceFolder \<and> tp_chat_id r = c) (topics db))"

text \<open>Examples: two registered chats, 100 with the workspace \<open>family-chat\<close> and 200 with
  the workspace \<open>dev\<close>; a message of the worker of \<open>family-chat\<close> to its own chat, and a
  reaction of that worker in the other chat.\<close>

definition two_chats :: Registry where
  "two_chats = [100 \<mapsto> family_chat,
                200 \<mapsto> family_chat\<lparr>rc_chatId := 200, rc_chatTitle := ''Dev''\<rparr>]"

definition two_topics :: Store where
  "two_topics =
     upsertTopic (upsertTopic empty_store ''2026-01-01T00:00:00.000Z'' 100 0 ''General''
        ''family-chat'' None) ''2026-01-01T00:00:01.000Z'' 200 0 ''General'' ''dev'' None"

definition own_message :: IpcMessageData where
  "own_message =
     \<lparr>ipc_type = ''message'', ipc_chatId = Some 100, ipc_topicId = Some 0,
      ipc_text = Some ''reminder: call mum'', ipc_messageId = None, ipc_emoji = None\<rparr>"

definition foreign_reaction :: IpcMessageData where
  "foreign_reaction =
     \<lparr>ipc_type = ''reaction'', ipc_chatId = Some 200, ipc_topicId = None,
      ipc_text = None, ipc_messageId = Some 5, ipc_emoji = Some ''+1''\<rparr>"


section \<open>The session router (\<open>session-manager.ts\<close>)\<close>

text \<open>
  \<open>generateFolderName\<close> tries the base name, then the base name with \<open>-1\<close>, \<open>-2\<close>, ...
  until no topic has the folder. The loop ends because the table is finite and the
  candidates differ from one another: a decimal numeral determines its number.
\<close>

definition digits_value :: "string \<Rightarrow> nat" where
  "digits_value s = foldl (\<lambda>a c. 10 * a + (code_unit c - 48)) 0 s"

lemma digit_char_value: "d < 10 \<Longrightarrow> code_unit (digit_char d) - 48 = d"
  by (simp add: digit_char_def code_unit_def)

lemma digits_value_digits_of: "digits_value (digits_of n) = n"
proof (induction n rule: digits_of.induct)
  case (1 n)
  show ?case
  proof (cases "n < 10")
    case True
    then show ?thesis by (simp add: digits_value_def digit_char_value)
  next
    case False
    have "digits_of n = digits_of (n div 10) @ [digit_char (n mod 10)]"
      using False by (subst digits_of.simps) simp
    moreover have "digits_value (digits_of (n div 10)) = n div 10" using 1 False by simp
    ultimately show ?thesis by (simp add: digits_value_def digit_char_value)
  qed
qed

lemma inj_digits_of: "inj digits_of"
  by (rule inj_on_inverseI [of _ digits_value]) (rule digits_value_digits_of)

text \<open>The candidate \<open>`${baseName}-${counter}`\<close>, the folders in use, and the counters from
  \<open>counter\<close> on whose candidate is in use.\<close>

definition candidate :: "string \<Rightarrow> nat \<Rightarrow> string" where
  "candidate baseName counter = baseName @ ''-'' @ digits_of counter"

lemma inj_candidate: "inj (candidate baseName)"
  using inj_digits_of by (auto simp: candidate_def inj_def)

definition taken :: "Store \<Rightarrow> string set" where
  "taken db = tp_folder ` set (topics db)"

lemma getTopicByFolder_None: "getTopicByFolder db f = None \<longleftrightarrow> f \<notin> taken db"
  by (auto simp: getTopicByFolder_def taken_def find_None_iff)

definition later_taken :: "Store \<Rightarrow> string \<Rightarrow> nat \<Rightarrow> nat set" where
  "later_taken db baseName counter = {k. counter \<le> k \<and> candidate baseName k \<in> taken db}"

lemma finite_later_taken: "finite (later_taken db baseName counter)"
proof -
  have "finite (candidate baseName -` taken db)"
    by (rule finite_vimageI [OF _ inj_candidate]) (simp add: taken_def)
  moreover have "later_taken db baseName counter \<subseteq> candidate baseName -` taken db"
    by (auto simp: later_taken_def)
  ultimately show ?thesis by (rule rev_finite_subset)
qed

lemma later_taken_step:
  "card (later_taken db baseName (Suc counter)) +
     (if candidate baseName counter \<in> taken db then 1 else 0)
   = card (later_taken db baseName counter)"
proof (cases "candidate baseName counter \<in> taken db")
  case True
  have "later_taken db baseName counter = insert counter (later_taken db baseName (Suc counter))"
    using True by (auto simp: later_taken_def le_Suc_eq)
  moreover have "counter \<notin> later_taken db baseName (Suc counter)" by (simp add: later_taken_def)
  ultimately show ?thesis using True finite_later_taken by simp
next
  case False
  have "k \<noteq> counter" if "candidate baseName k \<in> taken db" for k
    using that False by auto
  then have "later_taken db baseName counter = later_taken db baseName (Suc counter)"
    by (auto simp: later_taken_def Suc_le_eq order_le_less)
  then show ?thesis using False by simp
qed

text \<open>The \<open>while\<close> loop of \<open>generateFolderName\<close>, on the variables \<open>folder\<close> and
  \<open>counter\<close>.\<close>

function findFreeFolder :: "Store \<Rightarrow> string \<Rightarrow> string \<Rightarrow> nat \<Rightarrow> string" where
  "findFreeFolder db baseName fld counter =
     (if getTopicByFolder db fld \<noteq> None
      then findFreeFolder db baseName (candidate baseName counter) (Suc counter)
      else fld)"
  by pat_completeness auto
termination
proof (relation "measure (\<lambda>(db, baseName, fld, counter).
          card (later_taken db baseName counter) + (if fld \<in> taken db then 1 else 0))")
  show "wf (measure (\<lambda>(db, baseName, fld, counter).
          card (later_taken db baseName counter) + (if fld \<in> taken db then 1 else 0)))"
    by simp
next
  fix db :: Store and baseName fld :: string and counter :: nat
  assume "getTopicByFolder db fld \<noteq> None"
  then have "fld \<in> taken db" by (simp add: getTopicByFolder_None)
  then show "((db, baseName, candidate baseName counter, Suc counter), (db, baseName, fld, counter))
        \<in> measure (\<lambda>(db, baseName, fld, counter).
          card (later_taken db baseName counter) + (if fld \<in> taken db then 1 else 0))"
    using later_taken_step [of db baseName counter] by simp
qed

definition generateFolderName :: "Store \<Rightarrow> string \<Rightarrow> string \<Rightarrow> SessionKey \<Rightarrow> string" where
  "generateFolderName db chatTitle topicName key =
     (let chatSlug = slugify chatTitle;
          topicSlug = (if topicId key = 0 then [] else slugify topicName);
          baseName0 = (if topicSlug \<noteq> [] then chatSlug @ ''-'' @ topicSlug else chatSlug);
          baseName = (if baseName0 = [] then ''chat-'' @ show_int (chatId key) else baseName0)
      in findFreeFolder db baseName baseName 1)"

text \<open>\<open>getSessionFolder\<close> returns the folder together with the store; \<open>now\<close> is the
  reading of the clock in \<open>upsertTopic\<close>. The directories made on disk are left out.\<close>

definition getSessionFolder ::
  "Store \<Rightarrow> string \<Rightarrow> SessionKey \<Rightarrow> string \<Rightarrow> string \<Rightarrow> string \<times> Store" where
  "getSessionFolder db now key chatTitle topicName =
     (case getTopic db (chatId key) (topicId key) of
        Some existing \<Rightarrow> (tp_folder existing, db)
      | None \<Rightarrow>
          let fld = generateFolderName db chatTitle topicName key
          in (fld, upsertTopic db now (chatId key) (topicId key) topicName fld None))"

text \<open>
  What writes to the topics table: the router, when a chat and topic is observed, and
  \<open>updateTopicTimestamp\<close>, when a message is stored.
\<close>

datatype RouterOp =
    Observe SessionKey string string string
  | Touch int int string

fun routerStep :: "Store \<Rightarrow> RouterOp \<Rightarrow> Store" where
  "routerStep db (Observe key chatTitle topicName now) =
     snd (getSessionFolder db now key chatTitle topicName)"
| "routerStep db (Touch c t now) = updateTopicTimestamp db now c t"

definition routerRun :: "RouterOp list \<Rightarrow> Store \<Rightarrow> Store" where
  "routerRun ops db = foldl routerStep db ops"

text \<open>Folders and keys are unique in the topics table.\<close>

definition router_inv :: "Store \<Rightarrow> bool" where
  "router_inv db \<longleftrightarrow>
     distinct (map tp_folder (topics db)) \<and> distinct (map topic_key (topics db))"


section \<open>The mounts of a worker (\<open>container-pool.ts\<close>)\<close>

record VolumeMount =
  vm_hostPath :: string
  vm_containerPath :: string
  vm_readonly :: "bool option"

record GroupConfig =
  gc_folder :: string
  gc_name :: string
  gc_containerConfig :: "ContainerConfig option"
  gc_chatType :: "string option"

text \<open>
  What \<open>buildVolumeMounts\<close> reads from outside: the working directory of the process,
  which paths exist, the content of the \<open>.env\<close> file if there is one, and
  \<open>validateAdditionalMounts\<close> of \<open>mount-security.ts\<close>, which is not among the sources.
  The directories and the filtered env file it writes are left out.
\<close>

record MountEnv =
  me_cwd :: string
  me_existsSync :: "string \<Rightarrow> bool"
  me_envFile :: "string option"
  me_validateAdditionalMounts :: "AdditionalMount list \<Rightarrow> string \<Rightarrow> bool \<Rightarrow> VolumeMount list"

text \<open>\<open>path.join\<close> of segments that need no normalisation.\<close>

definition path_join :: "string \<Rightarrow> string \<Rightarrow> string" where
  "path_join a b = a @ ''/'' @ b"

definition GROUPS_DIR :: "MountEnv \<Rightarrow> string" where
  "GROUPS_DIR env = path_join (me_cwd env) ''groups''"

definition DATA_DIR :: "MountEnv \<Rightarrow> string" where
  "DATA_DIR env = path_join (me_cwd env) ''data''"

text \<open>\<open>split('\n')\<close> and \<open>trim\<close>.\<close>

fun split_lines :: "string \<Rightarrow> string list" where
  "split_lines [] = [[]]"
| "split_lines (c # cs) =
     (if c = CHR 0x0A then [] # split_lines cs
      else (case split_lines cs of [] \<Rightarrow> [[c]] | l # ls \<Rightarrow> (c # l) # ls))"

definition trim :: "string \<Rightarrow> string" where
  "trim s = rev (dropWhile is_space (rev (dropWhile is_space s)))"

definition allowedVars :: "string list" where
  "allowedVars = [''CLAUDE_CODE_OAUTH_TOKEN'', ''ANTHROPIC_API_KEY'']"

definition filteredLines :: "string \<Rightarrow> string list" where
  "filteredLines envContent =
     filter (\<lambda>line. let trimmed = trim line in
               if trimmed = [] \<or> starts_with trimmed ''#'' then False
               else list_ex (\<lambda>v. starts_with trimmed (v @ ''='')) allowedVars)
            (split_lines envContent)"

definition buildVolumeMounts :: "MountEnv \<Rightarrow> GroupConfig \<Rightarrow> bool \<Rightarrow> VolumeMount list" where
  "buildVolumeMounts env grp isMain =
     (let projectRoot = me_cwd env;
          sharedFolder = (if gc_chatType grp = Some ''private'' then MAIN_FOLDER else GLOBAL_FOLDER);
          sharedClaudeMd = path_join (path_join (GROUPS_DIR env) sharedFolder) ''CLAUDE.md'';
          globalDir = path_join (GROUPS_DIR env) ''global'';
          first =
            (if isMain
             then [\<lparr>vm_hostPath = projectRoot, vm_containerPath = ''/workspace/project'',
                     vm_readonly = Some False\<rparr>,
                   \<lparr>vm_hostPath = path_join (GROUPS_DIR env) (gc_folder grp),
                     vm_containerPath = ''/workspace/group'', vm_readonly = Some False\<rparr>]
             else [\<lparr>vm_hostPath = path_join (GROUPS_DIR env) (gc_folder grp),
                     vm_containerPath = ''/workspace/group'', vm_readonly = Some False\<rparr>] @
                  (if me_existsSync env sharedClaudeMd
                   then [\<lparr>vm_hostPath = sharedClaudeMd,
                           vm_containerPath = ''/workspace/group/CLAUDE.md'',
                           vm_readonly = Some True\<rparr>] else []) @
                  (if me_existsSync env globalDir
                   then [\<lparr>vm_hostPath = globalDir, vm_containerPath = ''/workspace/global'',
                           vm_readonly = Some True\<rparr>] else []));
          always =
            [\<lparr>vm_hostPath = path_join (path_join (path_join (DATA_DIR env) ''sessions'')
                               (gc_folder grp)) ''.claude'',
              vm_containerPath = ''/home/node/.claude'', vm_readonly = Some False\<rparr>,
             \<lparr>vm_hostPath = path_join (path_join (DATA_DIR env) ''ipc'') (gc_folder grp),
              vm_containerPath = ''/workspace/ipc'', vm_readonly = Some False\<rparr>];
          envMount =
            (case me_envFile env of
               None \<Rightarrow> []
             | Some envContent \<Rightarrow>
                 if filteredLines envContent \<noteq> []
                 then [\<lparr>vm_hostPath = path_join (DATA_DIR env) ''env'',
                         vm_containerPath = ''/workspace/env-dir'', vm_readonly = Some True\<rparr>]
                 else []);
          extra =
            (case gc_containerConfig grp of
               None \<Rightarrow> []
             | Some cfg \<Rightarrow>
                 (case additionalMounts cfg of
                    None \<Rightarrow> []
                  | Some ms \<Rightarrow> me_validateAdditionalMounts env ms (gc_name grp) isMain))
      in first @ always @ envMount @ extra)"

text \<open>\<open>buildContainerArgs\<close>; \<open>warmTimeout\<close> is \<open>CONTAINER_WARM_TIMEOUT\<close> and \<open>img\<close> is
  \<open>CONTAINER_IMAGE\<close>.\<close>

definition mount_arg :: "VolumeMount \<Rightarrow> string list" where
  "mount_arg m =
     (if vm_readonly m = Some True
      then [''-v'', vm_hostPath m @ '':'' @ vm_containerPath m @ '':ro'']
      else [''-v'', vm_hostPath m @ '':'' @ vm_containerPath m])"

definition buildContainerArgs :: "int \<Rightarrow> string \<Rightarrow> VolumeMount list \<Rightarrow> bool \<Rightarrow> string list" where
  "buildContainerArgs warmTimeout img mounts warm =
     [''run'', ''-i'', ''--rm''] @ concat (map mount_arg mounts) @
     (if warm then [''-e'', ''WARM_MODE=true'', ''-e'',
                    ''IDLE_TIMEOUT='' @ show_int (warmTimeout div 1000)] else []) @
     [img]"

text \<open>The mounts with which \<open>spawnWarmContainer\<close> and \<open>runColdContainer\<close> launch the
  worker of a run request: the group is made of the folder, the name, the container
  configuration and the chat type of the input, and \<open>isMain\<close> is the input's.\<close>

definition launchMounts ::
  "MountEnv \<Rightarrow> string \<Rightarrow> string \<Rightarrow> ContainerInput \<Rightarrow> ContainerConfig option \<Rightarrow> VolumeMount list" where
  "launchMounts env fld name input cfg =
     buildVolumeMounts env
       \<lparr>gc_folder = fld, gc_name = name, gc_containerConfig = cfg,
        gc_chatType = ci_chatType input\<rparr>
       (ci_isMain input)"

text \<open>Examples: a host with no shared files, and a new group chat whose title is
  \<open>Main!\<close>.\<close>

definition bare_host :: MountEnv where
  "bare_host =
     \<lparr>me_cwd = ''/srv/nanoclaw'', me_existsSync = (\<lambda>p. False), me_envFile = None,
      me_validateAdditionalMounts = (\<lambda>ms name isMain. [])\<rparr>"

text \<open>A chat first seen under the title \<open>Family\<close>; its title is \<open>Main!\<close> later.\<close>

definition renamed_store :: Store where
  "renamed_store =
     snd (getSessionFolder empty_store ''2026-01-01T09:00:00.000Z'' \<lparr>chatId = 300, topicId = 0\<rparr>
            ''Family'' ''General'')"

section \<open>The warm container pool (\<open>container-pool.ts\<close>)\<close>

text \<open>
  The supervisor is one thread that runs handlers to completion: a handler is atomic,
  and between two \<open>await\<close>s other handlers run. The pool is modelled by its state and
  one step per handler. A \<open>WarmContainer\<close> object is shared by the map \<open>containers\<close> and by
  the closures of its handlers, so the objects live in a store of their own, the list
  \<open>objects\<close>, and the map holds positions of that list.
\<close>

record WarmContainer =
  wc_folder :: string
  wc_ready :: bool
  wc_processing :: bool
  wc_resolveMessage :: "nat option"
  wc_started :: bool
  wc_spawnFailed :: bool
  wc_killed :: bool
  wc_exited :: bool

text \<open>
  Beyond the fields of the source (\<open>folder\<close>, \<open>ready\<close>, \<open>processing\<close> and
  \<open>resolveMessage\<close>, which holds the number of the request whose resolver is installed),
  an object records how far \<open>spawnWarmContainer\<close> got (\<open>wc_started\<close>: the wait for
  readiness returned, the exit handlers are registered and the object is in the map;
  \<open>wc_spawnFailed\<close>: the wait timed out) and the state of its process (\<open>wc_killed\<close>:
  \<open>SIGTERM\<close> was sent; \<open>wc_exited\<close>: the process has exited).

  A request is one call of \<open>sendToWarmContainer\<close>: the object it was sent to and the
  flag \<open>resolved\<close> of its closure.
\<close>

record WarmRequest =
  rq_container :: nat
  rq_resolved :: bool

record ContainerPool =
  containers :: "string \<rightharpoonup> nat"
  objects :: "WarmContainer list"
  requests :: "WarmRequest list"

definition new_pool :: ContainerPool where
  "new_pool = \<lparr>containers = Map.empty, objects = [], requests = []\<rparr>"

text \<open>The handlers: a call of \<open>runContainer\<close> for a folder; a readiness marker on the
  stderr of an object; the poll \<open>checkReady\<close> of a spawn that finds the object ready; the
  30 second timeout of a spawn; a complete output on the stdout of an object; the
  deadline of a request; an error of the write to stdin of a request; the exit of the
  process of an object; the idle reaper at the map entry of a folder whose last
  activity is too old.\<close>

datatype PoolEvent =
    RunRequest string
  | StderrReady nat
  | SpawnPoll nat
  | SpawnTimeout nat
  | StdoutOutput nat
  | RequestTimeout nat
  | WriteError nat
  | Exit nat
  | IdleReap string

text \<open>What a handler does for a run request: it is served by a cold container, sent
  to a warm object as a numbered request, or left waiting for the spawn of a new
  object; a request is resolved; or nothing of these.\<close>

datatype PoolOutcome =
    ServedCold
  | SentWarm nat nat
  | SpawnStarted nat
  | Resolved nat
  | Nothing

definition update_object :: "ContainerPool \<Rightarrow> nat \<Rightarrow> (WarmContainer \<Rightarrow> WarmContainer) \<Rightarrow> ContainerPool" where
  "update_object pool w f = pool\<lparr>objects := (objects pool)[w := f (objects pool ! w)]\<rparr>"

text \<open>The synchronous part of \<open>sendToWarmContainer\<close>.\<close>

definition sendToWarmContainer :: "ContainerPool \<Rightarrow> nat \<Rightarrow> ContainerPool \<times> PoolOutcome" where
  "sendToWarmContainer pool w =
     (let rid = length (requests pool);
          pool1 = update_object pool w
                    (\<lambda>c. c\<lparr>wc_processing := True, wc_resolveMessage := Some rid\<rparr>)
      in (pool1\<lparr>requests := requests pool1 @ [\<lparr>rq_container = w, rq_resolved = False\<rparr>]\<rparr>,
          SentWarm w rid))"

text \<open>\<open>cleanupAndResolve\<close> of the request \<open>rid\<close>: the first call resolves the request
  and clears \<open>processing\<close> and \<open>resolveMessage\<close> of its object; later calls do nothing.\<close>

definition cleanupAndResolve :: "ContainerPool \<Rightarrow> nat \<Rightarrow> ContainerPool \<times> PoolOutcome" where
  "cleanupAndResolve pool rid =
     (if rq_resolved (requests pool ! rid) then (pool, Nothing)
      else
        (let w = rq_container (requests pool ! rid);
             pool1 = update_object pool w
                       (\<lambda>c. c\<lparr>wc_processing := False, wc_resolveMessage := None\<rparr>)
         in (pool1\<lparr>requests := (requests pool1)[rid := (requests pool1 ! rid)\<lparr>rq_resolved := True\<rparr>]\<rparr>,
             Resolved rid)))"

text \<open>The start of \<open>spawnWarmContainer\<close>: a new object, not ready, not in the map.\<close>

definition spawnWarmContainer :: "ContainerPool \<Rightarrow> string \<Rightarrow> ContainerPool \<times> PoolOutcome" where
  "spawnWarmContainer pool fld =
     (pool\<lparr>objects := objects pool @
        [\<lparr>wc_folder = fld, wc_ready = False, wc_processing = False, wc_resolveMessage = None,
          wc_started = False, wc_spawnFailed = False, wc_killed = False, wc_exited = False\<rparr>]\<rparr>,
      SpawnStarted (length (objects pool)))"

text \<open>One handler; the first argument is \<open>CONTAINER_WARM_TIMEOUT\<close>. An event that
  cannot happen in a state (a handler of an object that does not exist, a timer that
  was cleared) changes nothing.\<close>

fun poolStep :: "int \<Rightarrow> ContainerPool \<Rightarrow> PoolEvent \<Rightarrow> ContainerPool \<times> PoolOutcome" where
  "poolStep warmTimeout pool (RunRequest fld) =
     (if warmTimeout \<le> 0 then (pool, ServedCold)
      else
        (case containers pool fld of
           None \<Rightarrow> spawnWarmContainer pool fld
         | Some w \<Rightarrow>
             if wc_ready (objects pool ! w) \<and> \<not> wc_processing (objects pool ! w)
             then sendToWarmContainer pool w
             else if wc_processing (objects pool ! w) then (pool, ServedCold)
             else spawnWarmContainer pool fld))"
| "poolStep warmTimeout pool (StderrReady w) =
     (if w < length (objects pool) \<and> \<not> wc_exited (objects pool ! w)
      then (update_object pool w (\<lambda>c. c\<lparr>wc_ready := True\<rparr>), Nothing)
      else (pool, Nothing))"
| "poolStep warmTimeout pool (SpawnPoll w) =
     (if w < length (objects pool) \<and> \<not> wc_started (objects pool ! w) \<and>
         \<not> wc_spawnFailed (objects pool ! w) \<and> wc_ready (objects pool ! w)
      then
        (let pool1 = update_object pool w (\<lambda>c. c\<lparr>wc_started := True\<rparr>);
             pool2 = pool1\<lparr>containers := (containers pool1)(wc_folder (objects pool ! w) \<mapsto> w)\<rparr>
         in sendToWarmContainer pool2 w)
      else (pool, Nothing))"
| "poolStep warmTimeout pool (SpawnTimeout w) =
     (if w < length (objects pool) \<and> \<not> wc_started (objects pool ! w) \<and>
         \<not> wc_spawnFailed (objects pool ! w)
      then (update_object pool w (\<lambda>c. c\<lparr>wc_killed := True, wc_spawnFailed := True\<rparr>), ServedCold)
      else (pool, Nothing))"
| "poolStep warmTimeout pool (StdoutOutput w) =
     (if w < length (objects pool) \<and> \<not> wc_exited (objects pool ! w)
      then (case wc_resolveMessage (objects pool ! w) of
              None \<Rightarrow> (pool, Nothing)
            | Some rid \<Rightarrow> cleanupAndResolve pool rid)
      else (pool, Nothing))"
| "poolStep warmTimeout pool (RequestTimeout rid) =
     (if rid < length (requests pool) \<and> \<not> rq_resolved (requests pool ! rid)
      then
        (let w = rq_container (requests pool ! rid);
             pool1 = update_object pool w (\<lambda>c. c\<lparr>wc_killed := True\<rparr>);
             pool2 = pool1\<lparr>containers := (containers pool1)(wc_folder (objects pool ! w) := None)\<rparr>
         in cleanupAndResolve pool2 rid)
      else (pool, Nothing))"
| "poolStep warmTimeout pool (WriteError rid) =
     (if rid < length (requests pool) then cleanupAndResolve pool rid else (pool, Nothing))"
| "poolStep warmTimeout pool (Exit w) =
     (if w < length (objects pool) \<and> \<not> wc_exited (objects pool ! w)
      then
        (let pool1 = update_object pool w (\<lambda>c. c\<lparr>wc_exited := True\<rparr>) in
         if wc_started (objects pool ! w)
         then
           (let pool2 = (case wc_resolveMessage (objects pool ! w) of
                           None \<Rightarrow> pool1
                         | Some rid \<Rightarrow> fst (cleanupAndResolve pool1 rid))
            in (pool2\<lparr>containers := (containers pool2)(wc_folder (objects pool ! w) := None)\<rparr>,
                Nothing))
         else (pool1, Nothing))
      else (pool, Nothing))"
| "poolStep warmTimeout pool (IdleReap fld) =
     (case containers pool fld of
        None \<Rightarrow> (pool, Nothing)
      | Some w \<Rightarrow>
          if \<not> wc_processing (objects pool ! w)
          then ((update_object pool w (\<lambda>c. c\<lparr>wc_killed := True\<rparr>))
                  \<lparr>containers := (containers pool)(fld := None)\<rparr>, Nothing)
          else (pool, Nothing))"

text \<open>The pool after a list of handlers, and the outcome of the last of them.\<close>

definition poolRun :: "int \<Rightarrow> PoolEvent list \<Rightarrow> ContainerPool \<Rightarrow> ContainerPool" where
  "poolRun warmTimeout evs pool = foldl (\<lambda>p e. fst (poolStep warmTimeout p e)) pool evs"

text \<open>The warm workers of a folder: the objects of the folder that have passed the
  readiness handshake and whose process has not exited. The requests in flight on an
  object: its requests that are not resolved.\<close>

definition warmWorkers :: "ContainerPool \<Rightarrow> string \<Rightarrow> nat list" where
  "warmWorkers pool fld =
     filter (\<lambda>w. wc_folder (objects pool ! w) = fld \<and> wc_started (objects pool ! w) \<and>
                 \<not> wc_exited (objects pool ! w))
            [0..<length (objects pool)]"

definition inFlight :: "ContainerPool \<Rightarrow> nat \<Rightarrow> nat list" where
  "inFlight pool w =
     filter (\<lambda>rid. rq_container (requests pool ! rid) = w \<and> \<not> rq_resolved (requests pool ! rid))
            [0..<length (requests pool)]"

text \<open>Two traces. In the first a second run request for the folder arrives while the
  spawn of the first is waiting for readiness. The second goes on: the first worker
  answers and later exits, and a third run request arrives.\<close>

definition two_spawns :: "PoolEvent list" where
  "two_spawns =
     [RunRequest ''family-chat'', RunRequest ''family-chat'',
      StderrReady 0, SpawnPoll 0, StderrReady 1, SpawnPoll 1]"

definition orphan_exit :: "PoolEvent list" where
  "orphan_exit = two_spawns @ [StdoutOutput 0, Exit 0]"


text \<open>What holds of every pool the handlers can reach: a request belongs to an object
  of the store; a request that is not resolved is the one whose resolver its object
  holds; an object holds a resolver exactly while it is processing, and the resolver is
  of a request of the object that is not resolved; an object that is processing has
  passed the handshake; the map points to objects of the store that have passed the
  handshake.\<close>

definition pool_inv :: "ContainerPool \<Rightarrow> bool" where
  "pool_inv pool \<longleftrightarrow>
     (\<forall>rid < length (requests pool).
        rq_container (requests pool ! rid) < length (objects pool) \<and>
        (\<not> rq_resolved (requests pool ! rid) \<longrightarrow>
           wc_resolveMessage (objects pool ! rq_container (requests pool ! rid)) = Some rid)) \<and>
     (\<forall>w < length (objects pool).
        (wc_processing (objects pool ! w) \<longleftrightarrow> wc_resolveMessage (objects pool ! w) \<noteq> None) \<and>
        (\<forall>rid. wc_resolveMessage (objects pool ! w) = Some rid \<longrightarrow>
           rid < length (requests pool) \<and> rq_container (requests pool ! rid) = w \<and>
           \<not> rq_resolved (requests pool ! rid))) \<and>
     (\<forall>w < length (objects pool).
        wc_processing (objects pool ! w) \<longrightarrow> wc_started (objects pool ! w)) \<and>
     (\<forall>fld w. containers pool fld = Some w \<longrightarrow>
        w < length (objects pool) \<and> wc_started (objects pool ! w))"


section \<open>Properties of slugification\<close>

lemma code_unit_char_of: "code_unit (char_of n) = n mod 256"
  by (simp add: code_unit_def)

lemma toLowerCase_char_not_upper: "\<not> is_upper (toLowerCase_char c)"
  by (auto simp: toLowerCase_char_def is_upper_def code_unit_char_of)

lemma hyphen_facts: "\<not> is_upper CHR ''-''" "\<not> is_lower CHR ''-''" "\<not> is_digit CHR ''-''" "\<not> is_space CHR ''-''"
  "\<not> is_space CHR ''_''" "\<not> is_upper CHR ''_''"
  by (simp_all add: is_upper_def is_lower_def is_digit_def is_space_def code_unit_def)

lemma slug_char_not_space: "slug_char c \<Longrightarrow> \<not> is_space c"
  by (auto simp: slug_char_def is_space_def is_lower_def is_digit_def code_unit_def)

lemma slug_char_lower: "slug_char c \<Longrightarrow> toLowerCase_char c = c"
  by (auto simp: slug_char_def toLowerCase_char_def is_upper_def is_lower_def is_digit_def code_unit_def)

lemma slug_char_kept: "slug_char c \<Longrightarrow> is_word c \<or> is_space c \<or> is_hyphen c"
  by (auto simp: slug_char_def is_word_def is_hyphen_def)

lemma set_replace_runs: "set (replace_runs P s) \<subseteq> {c \<in> set s. \<not> P c} \<union> {CHR ''-''}"
  by (induction P s rule: replace_runs.induct) auto

lemma no_double_Cons:
  "no_double (c # s) \<longleftrightarrow>
     (case s of [] \<Rightarrow> True | d # _ \<Rightarrow> \<not> (is_hyphen c \<and> is_hyphen d)) \<and> no_double s"
  by (cases s) auto

lemma replace_runs_Nil: "replace_runs P s = [] \<longleftrightarrow> s = []"
  by (induction P s rule: replace_runs.induct) auto

lemma hd_replace_runs:
  "s \<noteq> [] \<Longrightarrow> hd (replace_runs P s) = (if P (hd s) then CHR ''-'' else hd s)"
  by (induction P s rule: replace_runs.induct) auto

lemma no_double_replace_runs: "no_double (replace_runs is_hyphen s)"
proof (induction is_hyphen s rule: replace_runs.induct)
  case 1 show ?case by simp
next
  case (2 c) show ?case by simp
next
  case (3 c d cs)
  have nd: "no_double (replace_runs is_hyphen (d # cs))" using 3 by auto
  have hd: "hd (replace_runs is_hyphen (d # cs)) = (if is_hyphen d then CHR ''-'' else d)"
    using hd_replace_runs [of "d # cs" is_hyphen] by simp
  have ne: "replace_runs is_hyphen (d # cs) \<noteq> []" by (simp add: replace_runs_Nil)
  show ?case using nd hd ne
    by (cases "replace_runs is_hyphen (d # cs)") (auto simp: no_double_Cons is_hyphen_def)
qed

lemma replace_runs_id: "\<forall>c\<in>set s. \<not> P c \<Longrightarrow> replace_runs P s = s"
  by (induction P s rule: replace_runs.induct) auto

lemma replace_hyphen_id: "no_double s \<Longrightarrow> replace_runs is_hyphen s = s"
  by (induction is_hyphen s rule: replace_runs.induct) (auto simp: is_hyphen_def)

lemma no_double_nth:
  "no_double s \<longleftrightarrow>
     (\<forall>i. Suc i < length s \<longrightarrow> \<not> (is_hyphen (s ! i) \<and> is_hyphen (s ! Suc i)))"
proof (induction s rule: no_double.induct)
  case (1 c d cs)
  show ?case
  proof
    assume a: "no_double (c # d # cs)"
    show "\<forall>i. Suc i < length (c # d # cs) \<longrightarrow>
           \<not> (is_hyphen ((c # d # cs) ! i) \<and> is_hyphen ((c # d # cs) ! Suc i))"
    proof (intro allI impI)
      fix i assume "Suc i < length (c # d # cs)"
      then show "\<not> (is_hyphen ((c # d # cs) ! i) \<and> is_hyphen ((c # d # cs) ! Suc i))"
        using a 1 by (cases i) auto
    qed
  next
    assume a: "\<forall>i. Suc i < length (c # d # cs) \<longrightarrow>
           \<not> (is_hyphen ((c # d # cs) ! i) \<and> is_hyphen ((c # d # cs) ! Suc i))"
    have "\<not> (is_hyphen c \<and> is_hyphen d)" using a [rule_format, of 0] by simp
    moreover have "\<forall>i. Suc i < length (d # cs) \<longrightarrow>
           \<not> (is_hyphen ((d # cs) ! i) \<and> is_hyphen ((d # cs) ! Suc i))"
      using a by (metis Suc_less_eq length_Cons nth_Cons_Suc)
    ultimately show "no_double (c # d # cs)" using 1 by simp
  qed
qed auto

lemma no_double_tl: "no_double (c # s) \<Longrightarrow> no_double s"
  by (cases s) auto

lemma no_double_take: "no_double s \<Longrightarrow> no_double (take n s)"
  by (simp add: no_double_nth)

lemma no_double_butlast: "no_double s \<Longrightarrow> no_double (butlast s)"
  using no_double_take [of s "length s - 1"] by (simp add: butlast_conv_take)

lemma set_trim: "set (trim_hyphens s) \<subseteq> set s"
  by (auto simp: trim_hyphens_def trim_start_def trim_end_def split: list.splits dest: in_set_butlastD)

lemma no_double_trim_start: "no_double s \<Longrightarrow> no_double (trim_start s)"
  by (auto simp: trim_start_def split: list.splits dest: no_double_tl)

lemma no_double_trim: "no_double s \<Longrightarrow> no_double (trim_hyphens s)"
  by (simp add: trim_hyphens_def trim_end_def no_double_butlast no_double_trim_start)

lemma trim_start_hd: "no_double s \<Longrightarrow> trim_start s \<noteq> [] \<Longrightarrow> \<not> is_hyphen (hd (trim_start s))"
  by (cases s rule: no_double.cases) (auto simp: trim_start_def)

lemma hd_butlast: "butlast s \<noteq> [] \<Longrightarrow> hd (butlast s) = hd s"
  by (cases s) auto

lemma trim_hd: "no_double s \<Longrightarrow> trim_hyphens s \<noteq> [] \<Longrightarrow> \<not> is_hyphen (hd (trim_hyphens s))"
  using trim_start_hd [of s]
  by (auto simp: trim_hyphens_def trim_end_def hd_butlast split: if_splits)

lemma hd_take: "take n s \<noteq> [] \<Longrightarrow> hd (take n s) = hd s"
  by (cases s; cases n) auto

lemma trim_id: "(s \<noteq> [] \<Longrightarrow> \<not> is_hyphen (hd s) \<and> \<not> is_hyphen (last s)) \<Longrightarrow> trim_hyphens s = s"
  by (cases s) (auto simp: trim_hyphens_def trim_start_def trim_end_def)

lemma slugify_pre: "slugify str = take 50 (pre_slug str)"
  by (simp add: slugify_def pre_slug_def)

lemma set_pre_slug: "c \<in> set (pre_slug str) \<Longrightarrow> slug_char c"
proof -
  assume "c \<in> set (pre_slug str)"
  then have "c \<in> set (replace_runs is_hyphen (replace_runs is_space (remove_special (toLowerCase str))))"
    using set_trim unfolding pre_slug_def by blast
  then have "c = CHR ''-'' \<or> c \<in> set (replace_runs is_space (remove_special (toLowerCase str)))"
    using set_replace_runs [of is_hyphen] by blast
  then have "c = CHR ''-'' \<or> (c \<in> set (remove_special (toLowerCase str)) \<and> \<not> is_space c)"
    using set_replace_runs [of is_space] by blast
  then show "slug_char c"
    using toLowerCase_char_not_upper
    by (auto simp: remove_special_def toLowerCase_def slug_char_def is_word_def is_hyphen_def)
qed

lemma no_double_pre_slug: "no_double (pre_slug str)"
  by (simp add: pre_slug_def no_double_trim no_double_replace_runs)

lemma slugify_fixed:
  assumes chars: "\<forall>c\<in>set s. slug_char c" and nd: "no_double s"
    and ends: "s \<noteq> [] \<Longrightarrow> \<not> is_hyphen (hd s) \<and> \<not> is_hyphen (last s)"
    and len: "length s \<le> 50"
  shows "slugify s = s"
proof -
  have 1: "toLowerCase s = s" using chars by (simp add: toLowerCase_def slug_char_lower map_idI)
  have 2: "remove_special s = s" using chars slug_char_kept by (auto simp: remove_special_def)
  have 3: "replace_runs is_space s = s" using chars slug_char_not_space by (simp add: replace_runs_id)
  have 4: "replace_runs is_hyphen s = s" using nd by (rule replace_hyphen_id)
  have 5: "trim_hyphens s = s" using ends by (rule trim_id)
  show ?thesis using len by (simp add: slugify_def 1 2 3 4 5)
qed

text \<open>
  Claim C7, as the code has it. Every character of a slug is a lower-case letter, a
  digit, an underscore or a hyphen (the underscore is a word character of \<open>\w\<close>, so
  the first replacement keeps it). Slugifying a slug gives the slug back whenever the
  slug does not end with a hyphen; the truncation to 50 characters runs after the
  trimming, so a slug cut right after a hyphen is the one case left out.
\<close>

theorem slugify_chars_idem:
  "list_all slug_char (slugify x) \<and>
   (\<not> (slugify x \<noteq> [] \<and> last (slugify x) = CHR ''-'') \<longrightarrow> slugify (slugify x) = slugify x)"
proof
  show "list_all slug_char (slugify x)"
    using set_pre_slug by (auto simp: slugify_pre list_all_iff dest: in_set_takeD)
next
  show "\<not> (slugify x \<noteq> [] \<and> last (slugify x) = CHR ''-'') \<longrightarrow> slugify (slugify x) = slugify x"
  proof
    assume e: "\<not> (slugify x \<noteq> [] \<and> last (slugify x) = CHR ''-'')"
    have "\<forall>c\<in>set (slugify x). slug_char c"
      using set_pre_slug by (auto simp: slugify_pre dest: in_set_takeD)
    moreover have "no_double (slugify x)"
      by (simp add: slugify_pre no_double_take no_double_pre_slug)
    moreover have "slugify x \<noteq> [] \<Longrightarrow> \<not> is_hyphen (hd (slugify x)) \<and> \<not> is_hyphen (last (slugify x))"
    proof -
      assume ne: "slugify x \<noteq> []"
      then have "pre_slug x \<noteq> []" by (auto simp: slugify_pre)
      then have "\<not> is_hyphen (hd (pre_slug x))"
        using trim_hd [OF no_double_replace_runs] by (simp add: pre_slug_def)
      then show ?thesis using ne e by (simp add: slugify_pre hd_take is_hyphen_def)
    qed
    moreover have "length (slugify x) \<le> 50" by (simp add: slugify_pre)
    ultimately show "slugify (slugify x) = slugify x" by (rule slugify_fixed)
  qed
qed

text \<open>The theorem at the title of the specification's first scenario.\<close>

theorem slugify_chars_idem_witness:
  "list_all slug_char (slugify ''Family Chat'') \<and> slugify (slugify ''Family Chat'') = slugify ''Family Chat''"
proof -
  have "slugify ''Family Chat'' = ''family-chat''" by code_simp
  then show ?thesis using slugify_chars_idem [of "''Family Chat''"] by simp
qed

text \<open>
  Claim C7 as stated fails twice. A title of 49 letters, a hyphen and one more letter
  has a slug of 50 characters that ends with the hyphen, and slugifying that slug
  removes the hyphen. The slug of \<open>a_b\<close> keeps its underscore, a character outside
  \<open>[a-z0-9-]\<close>.
\<close>

theorem slugify_not_idempotent:
  "slugify (slugify (replicate 49 CHR ''a'' @ ''-b'')) \<noteq> slugify (replicate 49 CHR ''a'' @ ''-b'') \<and>
   \<not> list_all claimed_char (slugify ''a_b'')"
  by code_simp

section \<open>Properties of the debouncer\<close>

lemma sortByTimestamp_props:
  "mset (sortByTimestamp b) = mset b" "sorted (map timestamp (sortByTimestamp b))"
  "length (sortByTimestamp b) = length b" "set (sortByTimestamp b) = set b"
  "filter (\<lambda>m. timestamp m = t) (sortByTimestamp b) = filter (\<lambda>m. timestamp m = t) b"
  by (simp_all add: sortByTimestamp_def sort_key_stable)

lemma sorted_last_max:
  "xs \<noteq> [] \<Longrightarrow> sorted (map f xs) \<Longrightarrow> x \<in> set xs \<Longrightarrow> f x \<le> f (last xs)"
proof (induction xs)
  case Nil then show ?case by simp
next
  case (Cons a xs)
  then show ?case by (cases xs) auto
qed

lemma single_sorted: "length b = 1 \<Longrightarrow> sortByTimestamp b = b"
  by (cases b) (auto simp: sortByTimestamp_def)

text \<open>
  What a flush does. A flush of a buffer that is not empty, with a handler set, removes
  the buffer and calls the handler once. The lines of the call are the
  buffered messages in ascending timestamp order, messages of one timestamp in their
  order of arrival. Every line carries the prefix \<open>[sender]: \<close> exactly when the buffer
  holds more than one message; the sender name of the call is the sender of the only
  message for a buffer of one message and \<open>Multiple users\<close> otherwise. The reply
  target is the id of the last message of the merged order, a buffered message whose
  timestamp no other exceeds.
\<close>

lemma flush_dispatch:
  assumes "messageBuffers st k = Some buffered" and "buffered \<noteq> []" and "hasHandler st"
  shows "\<exists>(merged :: BufferedMessage list) call.
      flushMessageBuffer st k = (st\<lparr>messageBuffers := (messageBuffers st)(k := None)\<rparr>, Some call)
    \<and> mset merged = mset buffered
    \<and> sorted (map timestamp merged)
    \<and> (\<forall>t. filter (\<lambda>m. timestamp m = t) merged = filter (\<lambda>m. timestamp m = t) buffered)
    \<and> hc_content call =
        join newline (map (\<lambda>m. (if length buffered > 1 then ''['' @ senderName m @ '']: '' else [])
                                 @ content m) merged)
    \<and> hc_senderName call =
        (if length buffered = 1 then senderName (hd buffered) else ''Multiple users'')
    \<and> hc_messageId call = messageId (last merged)
    \<and> last merged \<in> set buffered
    \<and> (\<forall>m\<in>set buffered. timestamp m \<le> timestamp (last merged))"
proof -
  let ?merged = "sortByTimestamp buffered"
  have ne: "?merged \<noteq> []" using assms(2) sortByTimestamp_props(3) [of buffered] by auto
  have mx: "\<forall>m\<in>set buffered. timestamp m \<le> timestamp (last ?merged)"
    using sorted_last_max [OF ne sortByTimestamp_props(2)] sortByTimestamp_props(4) by blast
  have lst: "last ?merged \<in> set buffered"
    using last_in_set [OF ne] sortByTimestamp_props(4) by blast
  have fl: "flushMessageBuffer st k =
      (st\<lparr>messageBuffers := (messageBuffers st)(k := None)\<rparr>, Some (flushCall buffered))"
    using assms by (simp add: flushMessageBuffer_def)
  have c: "hc_content (flushCall buffered) =
        join newline (map (\<lambda>m. (if length buffered > 1 then ''['' @ senderName m @ '']: '' else [])
                                 @ content m) ?merged)"
    by (simp add: flushCall_def Let_def combineLine_def [abs_def] sortByTimestamp_props(3))
  have s: "hc_senderName (flushCall buffered) =
        (if length buffered = 1 then senderName (hd buffered) else ''Multiple users'')"
    using single_sorted [of buffered]
    by (simp add: flushCall_def Let_def sortByTimestamp_props(3))
  have i: "hc_messageId (flushCall buffered) = messageId (last ?merged)"
    by (simp add: flushCall_def Let_def)
  show ?thesis
    using fl c s i mx lst sortByTimestamp_props(1,2) [of buffered]
      sortByTimestamp_props(5) [of _ buffered] by blast
qed

text \<open>The lemma at a buffer of two messages.\<close>

lemma flush_dispatch_witness:
  "\<exists>(merged :: BufferedMessage list) call.
      flushMessageBuffer alice_buffer ''100_0'' =
        (alice_buffer\<lparr>messageBuffers := (messageBuffers alice_buffer)(''100_0'' := None)\<rparr>, Some call)
    \<and> hc_content call = join newline (map (\<lambda>m. ''['' @ senderName m @ '']: '' @ content m) merged)
    \<and> hc_senderName call = ''Multiple users''
    \<and> hc_messageId call = messageId (last merged)"
proof -
  have b: "messageBuffers alice_buffer ''100_0'' = Some [alice_msg ''hi'' 10 1000, alice_msg ''there'' 11 2000]"
    by (simp add: alice_buffer_def)
  have h: "hasHandler alice_buffer" by (simp add: alice_buffer_def)
  have ne: "[alice_msg ''hi'' 10 1000, alice_msg ''there'' 11 2000] \<noteq> []" by simp
  from flush_dispatch [OF b ne h] obtain merged :: "BufferedMessage list" and call where
    "flushMessageBuffer alice_buffer ''100_0'' =
        (alice_buffer\<lparr>messageBuffers := (messageBuffers alice_buffer)(''100_0'' := None)\<rparr>, Some call)"
    "hc_content call =
        join newline (map (\<lambda>m. (if length [alice_msg ''hi'' 10 1000, alice_msg ''there'' 11 2000] > 1
           then ''['' @ senderName m @ '']: '' else []) @ content m) merged)"
    "hc_senderName call =
        (if length [alice_msg ''hi'' 10 1000, alice_msg ''there'' 11 2000] = 1
         then senderName (hd [alice_msg ''hi'' 10 1000, alice_msg ''there'' 11 2000])
         else ''Multiple users'')"
    "hc_messageId call = messageId (last merged)"
    by blast
  then show ?thesis by (intro exI [of _ merged] exI [of _ call]) simp
qed

text \<open>
  Claim C2 ties the prefix and the label to the number of senders, as the code's own
  words do: its comment reads \<open>Combine messages from multiple senders\<close>, its log
  entry lists the distinct senders, and its label is \<open>Multiple users\<close>. The two tests
  of the code count the messages instead. Two messages of the one sender Alice are
  flushed with the prefix on both lines and under the name \<open>Multiple users\<close>, where the
  claim gives no prefix and the name \<open>Alice\<close>.
\<close>

theorem flush_one_sender_prefixed:
  "senders [alice_msg ''hi'' 10 1000, alice_msg ''there'' 11 2000] = [''Alice''] \<and>
   map_option hc_content (snd (flushMessageBuffer alice_buffer ''100_0'')) =
     Some (''[Alice]: hi'' @ newline @ ''[Alice]: there'') \<and>
   map_option hc_senderName (snd (flushMessageBuffer alice_buffer ''100_0'')) =
     Some ''Multiple users''"
  by (simp add: senders_def alice_msg_def alice_buffer_def flushMessageBuffer_def flushCall_def
      sortByTimestamp_def combineLine_def)

section \<open>Properties of the message store\<close>

lemma messages_storeMessage:
  "messages (storeMessage db now nt mid c t sid sn tx ty ib rt re ra tm ag) =
   insert_or_replace (stored_row now mid c t sid sn tx ty ib rt re ra tm ag) (messages db)"
  by (simp add: storeMessage_def updateTopicTimestamp_def stored_row_def)

lemma key_is_stored_row: "key_is c t mid (stored_row now mid c t sid sn tx ty ib rt re ra tm ag)"
  by (simp add: key_is_def stored_row_def)

lemma same_key_stored_row:
  "same_message_key r (stored_row now mid c t sid sn tx ty ib rt re ra tm ag) = key_is c t mid r"
  by (auto simp: same_message_key_def key_is_def stored_row_def)

lemma filter_key_insert:
  "key_is c t mid row \<Longrightarrow> (\<And>r. same_message_key r row = key_is c t mid r) \<Longrightarrow>
   filter (key_is c t mid) (insert_or_replace row rows) = [row] \<and>
   filter (\<lambda>r. \<not> key_is c t mid r) (insert_or_replace row rows) = filter (\<lambda>r. \<not> key_is c t mid r) rows"
  by (simp add: insert_or_replace_def)

lemma updateTopicTimestamp_idem:
  "updateTopicTimestamp (updateTopicTimestamp db nt c t) nt c t = updateTopicTimestamp db nt c t"
  by (simp add: updateTopicTimestamp_def comp_def cong: map_cong)

lemma insert_or_replace_idem:
  "insert_or_replace row (insert_or_replace row rows) = insert_or_replace row rows"
  by (simp add: insert_or_replace_def same_message_key_def)

text \<open>
  Claim C9, as the code has it: \<open>storeMessage\<close> is an upsert on the key
  \<open>(chat_id, topic_id, id)\<close>. After a call the table holds exactly one row of that key,
  the row of that call with its reading of the clock, and the rows of every other key
  are as before. After a second call on the same key the one row of the key is the row
  of the second call: no duplicate, but the stored data and the timestamp are
  replaced. The same call repeated at the same readings of the clock leaves the store as
  the first call left it.
\<close>

theorem storeMessage_upsert:
  "filter (key_is c t mid) (messages (storeMessage db now nt mid c t sid sn tx ty ib rt re ra tm ag))
     = [stored_row now mid c t sid sn tx ty ib rt re ra tm ag] \<and>
   filter (\<lambda>r. \<not> key_is c t mid r) (messages (storeMessage db now nt mid c t sid sn tx ty ib rt re ra tm ag))
     = filter (\<lambda>r. \<not> key_is c t mid r) (messages db) \<and>
   filter (key_is c t mid)
     (messages (storeMessage (storeMessage db now nt mid c t sid sn tx ty ib rt re ra tm ag)
        now' nt' mid c t sid' sn' tx' ty' ib' rt' re' ra' tm' ag'))
     = [stored_row now' mid c t sid' sn' tx' ty' ib' rt' re' ra' tm' ag'] \<and>
   storeMessage (storeMessage db now nt mid c t sid sn tx ty ib rt re ra tm ag)
        now nt mid c t sid sn tx ty ib rt re ra tm ag
     = storeMessage db now nt mid c t sid sn tx ty ib rt re ra tm ag"
proof (intro conjI)
  show "filter (key_is c t mid) (messages (storeMessage db now nt mid c t sid sn tx ty ib rt re ra tm ag))
     = [stored_row now mid c t sid sn tx ty ib rt re ra tm ag]"
    using filter_key_insert [OF key_is_stored_row same_key_stored_row]
    by (simp add: messages_storeMessage)
  show "filter (\<lambda>r. \<not> key_is c t mid r) (messages (storeMessage db now nt mid c t sid sn tx ty ib rt re ra tm ag))
     = filter (\<lambda>r. \<not> key_is c t mid r) (messages db)"
    using filter_key_insert [OF key_is_stored_row same_key_stored_row]
    by (simp add: messages_storeMessage)
  show "filter (key_is c t mid)
     (messages (storeMessage (storeMessage db now nt mid c t sid sn tx ty ib rt re ra tm ag)
        now' nt' mid c t sid' sn' tx' ty' ib' rt' re' ra' tm' ag'))
     = [stored_row now' mid c t sid' sn' tx' ty' ib' rt' re' ra' tm' ag']"
    using filter_key_insert [OF key_is_stored_row same_key_stored_row]
    by (simp add: messages_storeMessage)
  show "storeMessage (storeMessage db now nt mid c t sid sn tx ty ib rt re ra tm ag)
        now nt mid c t sid sn tx ty ib rt re ra tm ag
     = storeMessage db now nt mid c t sid sn tx ty ib rt re ra tm ag"
    using insert_or_replace_idem
    by (simp add: storeMessage_def updateTopicTimestamp_def comp_def cong: map_cong)
qed

text \<open>
  Claim C9 as stated fails: the same message stored again five seconds later does not
  leave the store as it was, since the row now carries the later timestamp.
\<close>

theorem storeMessage_second_call_changes_row:
  "hello_twice ''2026-01-31T10:00:05.000Z'' (hello_twice ''2026-01-31T10:00:00.000Z'' empty_store)
     \<noteq> hello_twice ''2026-01-31T10:00:00.000Z'' empty_store \<and>
   map m_timestamp (messages
     (hello_twice ''2026-01-31T10:00:05.000Z'' (hello_twice ''2026-01-31T10:00:00.000Z'' empty_store)))
     = [''2026-01-31T10:00:05.000Z'']"
  by (simp add: hello_twice_def storeMessage_def updateTopicTimestamp_def insert_or_replace_def
      same_message_key_def empty_store_def)

section \<open>Properties of prompt assembly\<close>












text \<open>A folder named as a property of \<open>Object.prototype\<close> and without a timestamp of
  its own gets no prompt: the value read is not a string and the query throws.\<close>

lemma prompt_inherited_name_throws:
  "handleMessagePrompt family_registry Map.empty plain_store ''Nanomi''
       \<lparr>chatId = 100, topicId = 0\<rparr> ''constructor'' = Inl BindThrows \<and>
   handleMessagePrompt family_registry Map.empty plain_store ''Nanomi''
       \<lparr>chatId = 100, topicId = 0\<rparr> ''__proto__'' = Inl BindThrows"
  by code_simp

section \<open>Properties of the scheduler\<close>

lemma find_map_same_key:
  assumes "\<And>t. P (f t) = P t"
  shows "find P (map f xs) = map_option f (find P xs)"
  using assms by (induction xs) auto

lemma getTaskById_id: "getTaskById db tid = Some t \<Longrightarrow> st_id t = tid"
  by (auto simp: getTaskById_def dest: find_Some_iff [THEN iffD1])

lemma getTaskById_logTaskRun: "getTaskById (logTaskRun db l) tid = getTaskById db tid"
  by (simp add: getTaskById_def logTaskRun_def)

lemma getTaskById_updateTaskAfterRun:
  "getTaskById db tid = Some t \<Longrightarrow>
   getTaskById (updateTaskAfterRun db now tid nextRun lastResult) tid =
     Some (t\<lparr>st_next_run := nextRun, st_last_run := Some now, st_last_result := Some lastResult,
             st_status := (if nextRun = None then ''completed'' else st_status t)\<rparr>)"
proof -
  assume a: "getTaskById db tid = Some t"
  then have id: "st_id t = tid" by (auto simp: getTaskById_def dest: find_Some_iff [THEN iffD1])
  have "find (\<lambda>t. st_id t = tid)
          (map (\<lambda>t. if st_id t = tid
                    then t\<lparr>st_next_run := nextRun, st_last_run := Some now,
                           st_last_result := Some lastResult,
                           st_status := (if nextRun = None then ''completed'' else st_status t)\<rparr>
                    else t) (scheduled_tasks db)) =
        map_option (\<lambda>t. if st_id t = tid
                    then t\<lparr>st_next_run := nextRun, st_last_run := Some now,
                           st_last_result := Some lastResult,
                           st_status := (if nextRun = None then ''completed'' else st_status t)\<rparr>
                    else t) (find (\<lambda>t. st_id t = tid) (scheduled_tasks db))"
    by (rule find_map_same_key) simp
  then show ?thesis using a id by (simp add: getTaskById_def updateTaskAfterRun_def)
qed

lemma no_next_run_logTaskRun: "no_next_run tid (logTaskRun db l) = no_next_run tid db"
  by (simp add: no_next_run_def logTaskRun_def)

lemma no_next_run_map:
  assumes "scheduled_tasks db1 = map f (scheduled_tasks db)"
    and "\<And>t. t \<in> set (scheduled_tasks db) \<Longrightarrow> st_id (f t) \<noteq> tid \<or> st_next_run (f t) = None"
  shows "no_next_run tid db1"
  unfolding no_next_run_def assms(1) list_all_iff using assms(2) by simp

lemma no_next_run_in:
  "no_next_run tid db \<Longrightarrow> t \<in> set (scheduled_tasks db) \<Longrightarrow> st_id t = tid \<Longrightarrow> st_next_run t = None"
  unfolding no_next_run_def list_all_iff by blast

lemma no_next_run_after_null:
  "no_next_run tid (updateTaskAfterRun db now tid None lastResult)"
proof (rule no_next_run_map)
  show "scheduled_tasks (updateTaskAfterRun db now tid None lastResult) =
    map (\<lambda>t. if st_id t = tid
                    then t\<lparr>st_next_run := None, st_last_run := Some now,
                           st_last_result := Some lastResult,
                           st_status := (if None = (None :: instant option) then ''completed'' else st_status t)\<rparr>
                    else t) (scheduled_tasks db)"
    by (simp add: updateTaskAfterRun_def)
qed simp

lemma no_next_run_after_other:
  assumes "tid' \<noteq> tid" and "no_next_run tid db"
  shows "no_next_run tid (updateTaskAfterRun db now tid' nextRun lastResult)"
proof (rule no_next_run_map)
  show "scheduled_tasks (updateTaskAfterRun db now tid' nextRun lastResult) =
    map (\<lambda>t. if st_id t = tid'
                    then t\<lparr>st_next_run := nextRun, st_last_run := Some now,
                           st_last_result := Some lastResult,
                           st_status := (if nextRun = None then ''completed'' else st_status t)\<rparr>
                    else t) (scheduled_tasks db)"
    by (simp add: updateTaskAfterRun_def)
next
  fix t assume "t \<in> set (scheduled_tasks db)"
  then show "st_id (if st_id t = tid'
                    then t\<lparr>st_next_run := nextRun, st_last_run := Some now,
                           st_last_result := Some lastResult,
                           st_status := (if nextRun = None then ''completed'' else st_status t)\<rparr>
                    else t) \<noteq> tid \<or>
     st_next_run (if st_id t = tid'
                    then t\<lparr>st_next_run := nextRun, st_last_run := Some now,
                           st_last_result := Some lastResult,
                           st_status := (if nextRun = None then ''completed'' else st_status t)\<rparr>
                    else t) = None"
    using assms no_next_run_in [of tid db t] by (cases "st_id t = tid'") auto
qed

lemma no_next_run_runTask_other:
  assumes "st_id task \<noteq> tid" and "no_next_run tid db"
  shows "no_next_run tid (fst (runTask cronNext TIMEZONE deps env db task))"
proof (cases "getRegisteredChat (deps_registry deps) (st_chat_id task)")
  case None
  then show ?thesis using assms(2) by (simp add: runTask_def no_next_run_logTaskRun)
next
  case (Some registeredChat)
  have l: "no_next_run tid (logTaskRun db (run_log task env))"
    using assms(2) by (simp add: no_next_run_logTaskRun)
  show ?thesis
    using Some l no_next_run_after_other [OF assms(1) l]
    by (simp add: runTask_def Let_def split: option.splits)
qed

lemma no_next_run_updateTask:
  assumes "u_nextRun u = None" and "no_next_run tid db"
  shows "no_next_run tid (updateTask db tid' u)"
proof (rule no_next_run_map)
  show "scheduled_tasks (updateTask db tid' u) =
      map (\<lambda>t. if st_id t = tid' then apply_updates u t else t) (scheduled_tasks db)"
    by (simp add: updateTask_def)
next
  fix t assume "t \<in> set (scheduled_tasks db)"
  then show "st_id (if st_id t = tid' then apply_updates u t else t) \<noteq> tid \<or>
        st_next_run (if st_id t = tid' then apply_updates u t else t) = None"
    using assms no_next_run_in [of tid db t] by (auto simp: apply_updates_def)
qed

lemma no_next_run_deleteTask: "no_next_run tid db \<Longrightarrow> no_next_run tid (deleteTask db tid')"
  unfolding no_next_run_def list_all_iff by (simp add: deleteTask_def)

lemma no_next_run_createTask:
  assumes "st_id task \<noteq> tid" and "no_next_run tid db" and "createTask db task = Some db1"
  shows "no_next_run tid db1"
proof -
  have "db1 = db\<lparr>scheduled_tasks := scheduled_tasks db @
             [task\<lparr>st_context_mode :=
                     (if st_context_mode task = [] then ''isolated'' else st_context_mode task),
                   st_last_run := None, st_last_result := None\<rparr>]\<rparr>"
    using assms(3) by (simp add: createTask_def split: if_splits)
  then show ?thesis using assms(1,2) unfolding no_next_run_def list_all_iff by simp
qed

lemma runDue_other:
  assumes "tid \<notin> st_id ` set tasks" and "no_next_run tid db"
  shows "no_next_run tid (fst (runDue cronNext TIMEZONE deps env db tasks)) \<and>
         tid \<notin> set (snd (runDue cronNext TIMEZONE deps env db tasks))"
  using assms
proof (induction tasks arbitrary: db)
  case Nil
  then show ?case by simp
next
  case (Cons task rest)
  have ne: "st_id task \<noteq> tid" and rest: "tid \<notin> st_id ` set rest" using Cons.prems by auto
  show ?case
  proof (cases "getTaskById db (st_id task)")
    case None
    then show ?thesis using Cons.IH [OF rest Cons.prems(2)] by simp
  next
    case (Some currentTask)
    then have cid: "st_id currentTask \<noteq> tid" using getTaskById_id [OF Some] ne by simp
    show ?thesis
    proof (cases "st_status currentTask \<noteq> ''active''")
      case True
      then show ?thesis using Some Cons.IH [OF rest Cons.prems(2)] by simp
    next
      case False
      obtain db1 r where run: "runTask cronNext TIMEZONE deps (env (st_id task)) db currentTask = (db1, r)"
        by (cases "runTask cronNext TIMEZONE deps (env (st_id task)) db currentTask")
      have inv1: "no_next_run tid db1"
        using no_next_run_runTask_other [OF cid Cons.prems(2), of cronNext TIMEZONE deps "env (st_id task)"] run
        by simp
      obtain db2 ids where rec: "runDue cronNext TIMEZONE deps env db1 rest = (db2, ids)"
        by (cases "runDue cronNext TIMEZONE deps env db1 rest")
      have "no_next_run tid db2 \<and> tid \<notin> set ids" using Cons.IH [OF rest inv1] rec by simp
      then show ?thesis using False ne
        by (cases r) (simp_all add: Some run rec inv1)
    qed
  qed
qed

lemma due_has_next_run:
  assumes "no_next_run tid db"
  shows "tid \<notin> st_id ` set (getDueTasks db now)"
proof
  assume "tid \<in> st_id ` set (getDueTasks db now)"
  then obtain t where t: "t \<in> set (scheduled_tasks db)" "is_due now t" "st_id t = tid"
    by (auto simp: getDueTasks_def)
  have "st_next_run t = None" using assms t no_next_run_in by blast
  then show False using t(2) by (simp add: is_due_def)
qed

lemma schedulerTick_other:
  "no_next_run tid db \<Longrightarrow>
   no_next_run tid (fst (schedulerTick cronNext TIMEZONE deps env now db)) \<and>
   tid \<notin> set (snd (schedulerTick cronNext TIMEZONE deps env now db))"
  unfolding schedulerTick_def by (rule runDue_other [OF due_has_next_run])

lemma no_next_run_status:
  "no_next_run tid db \<Longrightarrow> no_next_run tid (updateTask db tid' (status_update st))"
  by (rule no_next_run_updateTask) (simp_all add: status_update_def)

lemma applyOps_never_runs:
  "no_next_run tid db \<Longrightarrow> never_rescheduled tid ops \<Longrightarrow>
   tid \<notin> set (snd (applyOps cronNext TIMEZONE db ops))"
proof (induction ops arbitrary: db)
  case Nil
  then show ?case by simp
next
  case (Cons op ops)
  have nr: "never_rescheduled tid ops" and here: "\<not> schedules tid op"
    using Cons.prems(2) by (auto simp: never_rescheduled_def)
  note IH = Cons.IH [OF _ nr]
  show ?case
  proof (cases op)
    case (Tick now deps env)
    obtain db1 ids where t: "schedulerTick cronNext TIMEZONE deps env now db = (db1, ids)"
      by (cases "schedulerTick cronNext TIMEZONE deps env now db")
    have i: "no_next_run tid db1" and n: "tid \<notin> set ids"
      using schedulerTick_other [OF Cons.prems(1), of cronNext TIMEZONE deps env now] t by simp_all
    obtain db2 later where l: "applyOps cronNext TIMEZONE db1 ops = (db2, later)"
      by (cases "applyOps cronNext TIMEZONE db1 ops")
    have "tid \<notin> set later" using IH [OF i] l by simp
    then show ?thesis using n by (simp add: Tick t l)
  next
    case (Pause x)
    show ?thesis using IH [OF no_next_run_status [OF Cons.prems(1)]] by (simp add: Pause)
  next
    case (Resume x)
    show ?thesis using IH [OF no_next_run_status [OF Cons.prems(1)]] by (simp add: Resume)
  next
    case (Cancel x)
    show ?thesis using IH [OF no_next_run_deleteTask [OF Cons.prems(1)]] by (simp add: Cancel)
  next
    case (Schedule task)
    then have ne: "st_id task \<noteq> tid" using here by simp
    show ?thesis
    proof (cases "createTask db task")
      case None
      then show ?thesis using IH [OF Cons.prems(1)] by (simp add: Schedule)
    next
      case (Some db1)
      then show ?thesis
        using IH [OF no_next_run_createTask [OF ne Cons.prems(1) Some]] by (simp add: Schedule)
    qed
  qed
qed

lemma runTask_once:
  assumes "st_schedule_type task = ''once''"
    and "getRegisteredChat (deps_registry deps) (st_chat_id task) = Some registeredChat"
  shows "fst (runTask cronNext TIMEZONE deps env db task) =
           updateTaskAfterRun (logTaskRun db (run_log task env)) (clk_update env) (st_id task) None
             (resultSummary (run_error (env_output env)) (run_result (env_output env)))"
  using assms by (simp add: runTask_def Let_def)

text \<open>
  Claim C3, as the code has it. Let a task of schedule type \<open>once\<close> be in the store and
  its chat be registered when the scheduler hands it to \<open>runTask\<close>. Whatever the worker
  answers and whatever the clock reads, after that one run the task has the status
  \<open>completed\<close> and no next run. From then on no tick runs it again: not after any list of
  later operations of the supervisor on the tasks table (ticks, pause, resume, cancel,
  and the scheduling of tasks under other ids), and in particular not in a tick that
  follows setting its status back to \<open>active\<close>.
\<close>

theorem once_task_completes:
  assumes "st_schedule_type task = ''once''"
    and "getRegisteredChat (deps_registry deps) (st_chat_id task) = Some registeredChat"
    and "getTaskById db (st_id task) = Some task"
  shows "(\<exists>t. getTaskById (fst (runTask cronNext TIMEZONE deps env db task)) (st_id task) = Some t
              \<and> st_status t = ''completed'' \<and> st_next_run t = None)
       \<and> (\<forall>ops. never_rescheduled (st_id task) ops \<longrightarrow>
             st_id task \<notin> set (snd (applyOps cronNext TIMEZONE
                (fst (runTask cronNext TIMEZONE deps env db task)) ops)))
       \<and> (\<forall>now deps1 env1. st_id task \<notin> set (snd (schedulerTick cronNext TIMEZONE deps1 env1 now
             (updateTask (fst (runTask cronNext TIMEZONE deps env db task)) (st_id task)
                (status_update ''active'')))))"
proof -
  define l where "l = run_log task env"
  define s where "s = resultSummary (run_error (env_output env)) (run_result (env_output env))"
  have r: "fst (runTask cronNext TIMEZONE deps env db task) =
           updateTaskAfterRun (logTaskRun db l) (clk_update env) (st_id task) None s"
    using runTask_once [OF assms(1,2)] by (simp add: l_def s_def)
  have g: "getTaskById (logTaskRun db l) (st_id task) = Some task"
    using assms(3) by (simp add: getTaskById_logTaskRun)
  have 1: "\<exists>t. getTaskById (fst (runTask cronNext TIMEZONE deps env db task)) (st_id task) = Some t
              \<and> st_status t = ''completed'' \<and> st_next_run t = None"
    unfolding r using getTaskById_updateTaskAfterRun [OF g, of "clk_update env" None s] by simp
  have inv: "no_next_run (st_id task) (fst (runTask cronNext TIMEZONE deps env db task))"
    unfolding r by (rule no_next_run_after_null)
  have 2: "\<forall>ops. never_rescheduled (st_id task) ops \<longrightarrow>
             st_id task \<notin> set (snd (applyOps cronNext TIMEZONE
                (fst (runTask cronNext TIMEZONE deps env db task)) ops))"
    using applyOps_never_runs [OF inv] by blast
  have "no_next_run (st_id task)
          (updateTask (fst (runTask cronNext TIMEZONE deps env db task)) (st_id task)
                (status_update ''active''))"
    by (rule no_next_run_status [OF inv])
  then have 3: "\<forall>now deps1 env1. st_id task \<notin> set (snd (schedulerTick cronNext TIMEZONE deps1 env1 now
             (updateTask (fst (runTask cronNext TIMEZONE deps env db task)) (st_id task)
                (status_update ''active''))))"
    using schedulerTick_other by blast
  show ?thesis by (intro conjI) (rule 1, rule 2, rule 3)
qed


text \<open>The theorem at the task \<open>task-1\<close> of the registered chat 100, resumed after its
  run and followed by a tick.\<close>

theorem once_task_completes_witness:
  "(\<exists>t. getTaskById (fst (runTask minute_next ''Asia/Singapore'' registered_deps example_env
             (example_store ''once'' ''2026-02-01T15:30:00'')
             (example_task ''once'' ''2026-02-01T15:30:00''))) ''task-1'' = Some t
        \<and> st_status t = ''completed'' \<and> st_next_run t = None)
   \<and> ''task-1'' \<notin> set (snd (applyOps minute_next ''Asia/Singapore''
        (fst (runTask minute_next ''Asia/Singapore'' registered_deps example_env
             (example_store ''once'' ''2026-02-01T15:30:00'')
             (example_task ''once'' ''2026-02-01T15:30:00'')))
        [Resume ''task-1'', Tick 999999 registered_deps (\<lambda>_. example_env)]))"
proof -
  let ?task = "example_task ''once'' ''2026-02-01T15:30:00''"
  let ?db = "example_store ''once'' ''2026-02-01T15:30:00''"
  have h1: "st_schedule_type ?task = ''once''" by (simp add: example_task_def)
  have h2: "getRegisteredChat (deps_registry registered_deps) (st_chat_id ?task) = Some family_chat"
    by (simp add: example_task_def registered_deps_def family_registry_def getRegisteredChat_def)
  have h3: "getTaskById ?db (st_id ?task) = Some ?task"
    by (simp add: example_task_def example_store_def getTaskById_def)
  have id: "st_id ?task = ''task-1''" by (simp add: example_task_def)
  have nr: "never_rescheduled ''task-1'' [Resume ''task-1'', Tick 999999 registered_deps (\<lambda>_. example_env)]"
    by (simp add: never_rescheduled_def)
  note t = once_task_completes [OF h1 h2 h3, of minute_next "''Asia/Singapore''" example_env]
  from t have a: "\<exists>t. getTaskById (fst (runTask minute_next ''Asia/Singapore'' registered_deps example_env
             ?db ?task)) ''task-1'' = Some t \<and> st_status t = ''completed'' \<and> st_next_run t = None"
    unfolding id by (rule conjunct1)
  from t have "\<forall>ops. never_rescheduled ''task-1'' ops \<longrightarrow>
             ''task-1'' \<notin> set (snd (applyOps minute_next ''Asia/Singapore''
                (fst (runTask minute_next ''Asia/Singapore'' registered_deps example_env ?db ?task)) ops))"
    unfolding id by (rule conjunct2 [THEN conjunct1])
  then have b: "''task-1'' \<notin> set (snd (applyOps minute_next ''Asia/Singapore''
                (fst (runTask minute_next ''Asia/Singapore'' registered_deps example_env ?db ?task))
                [Resume ''task-1'', Tick 999999 registered_deps (\<lambda>_. example_env)]))"
    using nr by blast
  show ?thesis using a b by (rule conjI)
qed

text \<open>
  Claim C3 as stated fails for a task whose chat is not registered: \<open>runTask\<close> writes
  an error row to the run log and returns before \<open>updateTaskAfterRun\<close>. The due task of
  type \<open>once\<close> is processed once and is as before, active with its next run, and
  the next tick processes it again.
\<close>

theorem once_task_of_unregistered_chat_stays_due:
  "st_schedule_type (example_task ''once'' ''2026-02-01T15:30:00'') = ''once'' \<and>
   is_due 2000 (example_task ''once'' ''2026-02-01T15:30:00'') \<and>
   getTaskById (fst (runTask minute_next ''Asia/Singapore'' unregistered_deps example_env
        (example_store ''once'' ''2026-02-01T15:30:00'')
        (example_task ''once'' ''2026-02-01T15:30:00''))) ''task-1''
     = Some (example_task ''once'' ''2026-02-01T15:30:00'') \<and>
   snd (schedulerTick minute_next ''Asia/Singapore'' unregistered_deps (\<lambda>_. example_env) 62000
        (fst (runTask minute_next ''Asia/Singapore'' unregistered_deps example_env
          (example_store ''once'' ''2026-02-01T15:30:00'')
          (example_task ''once'' ''2026-02-01T15:30:00'')))) = [''task-1'']"
  by code_simp

lemma div_mult_le_self:
  fixes d k :: int
  assumes "0 < k"
  shows "d div k * k \<le> d"
proof -
  have "d div k * k + d mod k = d" by simp
  moreover have "0 \<le> d mod k" using assms by simp
  ultimately show ?thesis by linarith
qed

lemma next_multiple_gt:
  fixes d k :: int
  assumes "0 < k"
  shows "d < (d div k + 1) * k"
proof -
  have "d div k * k + d mod k = d" by simp
  moreover have "d mod k < k" using assms by simp
  moreover have "(d div k + 1) * k = d div k * k + k" by (simp add: algebra_simps)
  ultimately show ?thesis by linarith
qed

lemma no_multiple_between:
  fixes d u k :: int
  assumes "0 < k" and "d < u" and "u < (d div k + 1) * k"
  shows "u mod k \<noteq> 0"
proof
  assume z: "u mod k = 0"
  then have u: "u = u div k * k" by auto
  then have "u div k * k < (d div k + 1) * k" using assms(3) by simp
  then have "u div k < d div k + 1" using assms(1) by (simp add: mult_less_cancel_right)
  then have "u div k * k \<le> d div k * k" using assms(1) by (simp add: mult_right_mono)
  moreover have "d div k * k \<le> d" using assms(1) by (rule div_mult_le_self)
  ultimately show False using u assms(2) by linarith
qed

lemma minute_contract: "cron_contract minute_occurs minute_next"
  unfolding cron_contract_def first_after_def minute_occurs_def minute_next_def
proof (intro allI impI)
  fix e tz :: string and d n :: int
  assume a: "(if e = ''* * * * *'' then Some ((d div 60000 + 1) * 60000) else None) = Some n"
  then have e: "e = ''* * * * *''" and n: "n = (d div 60000 + 1) * 60000"
    by (auto split: if_splits)
  have 1: "d < n" unfolding n by (rule next_multiple_gt) simp
  have 2: "n mod 60000 = 0" unfolding n by simp
  have 3: "\<forall>u. d < u \<and> u < n \<longrightarrow> \<not> (e = ''* * * * *'' \<and> u mod 60000 = 0)"
    unfolding n using no_multiple_between [of 60000 d] by auto
  show "d < n \<and> (e = ''* * * * *'' \<and> n mod 60000 = 0) \<and>
        (\<forall>u. d < u \<and> u < n \<longrightarrow> \<not> (e = ''* * * * *'' \<and> u mod 60000 = 0))"
    using 1 2 3 e by blast
qed

text \<open>
  Claim C4, as the code has it. Let the cron library keep its promise, a task of
  schedule type \<open>cron\<close> be in the store, its chat be registered, and the library
  return \<open>n\<close> for the task's expression in the configured time zone at the current
  date of the schedule computation, the reading of the clock taken once the run has
  returned and its log row is written. Then after the run the task's next run is \<open>n\<close>,
  the first occurrence of the expression strictly after that instant, which is later
  than the end of the run when the clock does not go back; its status is as before, and
  its last run is the reading of the clock at the update.
\<close>

theorem cron_next_run:
  assumes "cron_contract occurs cronNext"
    and "st_schedule_type task = ''cron''"
    and "getRegisteredChat (deps_registry deps) (st_chat_id task) = Some registeredChat"
    and "getTaskById db (st_id task) = Some task"
    and "cronNext (st_schedule_value task) TIMEZONE (clk_next env) = Some n"
  shows "\<exists>t. getTaskById (fst (runTask cronNext TIMEZONE deps env db task)) (st_id task) = Some t
            \<and> st_next_run t = Some n
            \<and> first_after occurs (st_schedule_value task) TIMEZONE (clk_next env) n
            \<and> (clk_end env \<le> clk_next env \<longrightarrow> clk_end env < n)
            \<and> st_status t = st_status task
            \<and> st_last_run t = Some (clk_update env)"
proof -
  have r: "fst (runTask cronNext TIMEZONE deps env db task) =
           updateTaskAfterRun (logTaskRun db (run_log task env)) (clk_update env) (st_id task) (Some n)
             (resultSummary (run_error (env_output env)) (run_result (env_output env)))"
    using assms(2,3,5) by (simp add: runTask_def Let_def)
  have g: "getTaskById (logTaskRun db (run_log task env)) (st_id task) = Some task"
    using assms(4) by (simp add: getTaskById_logTaskRun)
  have f: "first_after occurs (st_schedule_value task) TIMEZONE (clk_next env) n"
    using assms(1,5) unfolding cron_contract_def by blast
  have e: "clk_end env \<le> clk_next env \<longrightarrow> clk_end env < n"
    using f by (simp add: first_after_def)
  show ?thesis
    unfolding r
    using getTaskById_updateTaskAfterRun [OF g, of "clk_update env" "Some n"] f e by simp
qed

text \<open>The theorem at a task that runs every minute: a run that completes at 61.002
  seconds is followed by the next run at 120 seconds.\<close>

theorem cron_next_run_witness:
  "\<exists>t. getTaskById (fst (runTask minute_next ''Asia/Singapore'' registered_deps example_env
             (example_store ''cron'' ''* * * * *'') (example_task ''cron'' ''* * * * *''))) ''task-1''
          = Some t
        \<and> st_next_run t = Some 120000 \<and> st_status t = ''active'' \<and> st_last_run t = Some 61003"
proof -
  let ?task = "example_task ''cron'' ''* * * * *''"
  let ?db = "example_store ''cron'' ''* * * * *''"
  have h2: "st_schedule_type ?task = ''cron''" by (simp add: example_task_def)
  have h3: "getRegisteredChat (deps_registry registered_deps) (st_chat_id ?task) = Some family_chat"
    by (simp add: example_task_def registered_deps_def family_registry_def getRegisteredChat_def)
  have h4: "getTaskById ?db (st_id ?task) = Some ?task"
    by (simp add: example_task_def example_store_def getTaskById_def)
  have h5: "minute_next (st_schedule_value ?task) ''Asia/Singapore'' (clk_next example_env) = Some 120000"
    by (simp add: example_task_def example_env_def minute_next_def)
  have v: "st_id ?task = ''task-1''" "st_status ?task = ''active''" "clk_update example_env = 61003"
    by (simp_all add: example_task_def example_env_def)
  from cron_next_run [OF minute_contract h2 h3 h4 h5] show ?thesis
    unfolding v by blast
qed

text \<open>
  Claim C4 as stated fails in two ways. For a task whose chat is not registered
  \<open>runTask\<close> returns before the schedule computation: the run that ends at 61 seconds
  leaves the next run at 1 second, where the first occurrence after the end of the run
  is at 120 seconds, and the next tick runs the task again. For a registered chat the
  current date of the computation is read after the end of the run: a run that ends at
  59.999 seconds, with the computation at 60 seconds, stores 120 seconds and skips the
  occurrence at 60 seconds.
\<close>

theorem cron_next_run_not_after_completion:
  "st_schedule_type (example_task ''cron'' ''* * * * *'') = ''cron'' \<and>
   clk_end example_env = 61000 \<and>
   minute_next ''* * * * *'' ''Asia/Singapore'' (clk_end example_env) = Some 120000 \<and>
   map_option st_next_run
     (getTaskById (fst (runTask minute_next ''Asia/Singapore'' unregistered_deps example_env
        (example_store ''cron'' ''* * * * *'') (example_task ''cron'' ''* * * * *''))) ''task-1'')
     = Some (Some 1000) \<and>
   snd (schedulerTick minute_next ''Asia/Singapore'' unregistered_deps (\<lambda>_. example_env) 62000
        (fst (runTask minute_next ''Asia/Singapore'' unregistered_deps example_env
          (example_store ''cron'' ''* * * * *'') (example_task ''cron'' ''* * * * *''))))
     = [''task-1''] \<and>
   clk_end late_env = 59999 \<and>
   minute_occurs ''* * * * *'' ''Asia/Singapore'' 60000 \<and>
   map_option st_next_run
     (getTaskById (fst (runTask minute_next ''Asia/Singapore'' registered_deps late_env
        (example_store ''cron'' ''* * * * *'') (example_task ''cron'' ''* * * * *''))) ''task-1'')
     = Some (Some 120000)"
  by code_simp

section \<open>Properties of the mailbox\<close>

text \<open>When a message action and when a reaction action reaches the chat platform.\<close>

lemma ipc_message_sent_iff_main:
  "list_ex is_egress (processIpcMessage assistant reg sourceFolder data) \<and> ipc_type data = ''message''
   \<longleftrightarrow> ipc_type data = ''message'' \<and> ipc_chatId data \<noteq> None \<and> truthy (ipc_text data) \<and>
       sourceFolder = MAIN_FOLDER"
  by (auto simp: processIpcMessage_def Let_def isMainFolder_def)

lemma ipc_reaction_sent_iff:
  "list_ex is_egress (processIpcMessage assistant reg sourceFolder data) \<and> ipc_type data = ''reaction''
   \<longleftrightarrow> ipc_type data = ''reaction'' \<and> ipc_chatId data \<noteq> None \<and>
       truthy_num (ipc_messageId data) \<and> truthy (ipc_emoji data) \<and>
       (sourceFolder = MAIN_FOLDER \<or> isChatRegistered reg (the (ipc_chatId data)))"
  by (auto simp: processIpcMessage_def Let_def isMainFolder_def isChatRegistered_def getRegisteredChat_def)

text \<open>
  Claim C1 says that a message or reaction action is applied exactly when the source
  workspace is \<open>main\<close> or owns a registered chat of the target id. The code departs
  from it in both directions. The test for a message compares the source workspace
  with \<open>main\<close> a second time instead of with the owner of the chat, so the worker of
  \<open>family-chat\<close> cannot send to its own registered chat 100. The test for a reaction
  asks only whether the target chat is registered, so the same worker can react in the
  chat 200 of another workspace.
\<close>

theorem ipc_own_chat_blocked_foreign_reaction_sent:
  "spec_authorized two_topics two_chats ''family-chat'' 100 \<and>
   processIpcMessage ''Nanomi'' two_chats ''family-chat'' own_message =
     [LogWarn ''Unauthorized IPC message attempt blocked'', Unlink] \<and>
   \<not> spec_authorized two_topics two_chats ''family-chat'' 200 \<and>
   processIpcMessage ''Nanomi'' two_chats ''family-chat'' foreign_reaction =
     [ReactToMessage 200 5 ''+1'', LogInfo ''IPC reaction sent'', Unlink]"
  by code_simp

section \<open>Properties of the session router\<close>

lemma findFreeFolder_free: "getTopicByFolder db (findFreeFolder db baseName fld counter) = None"
proof (induction db baseName fld counter rule: findFreeFolder.induct)
  case (1 db baseName fld counter)
  show ?case
  proof (cases "getTopicByFolder db fld \<noteq> None")
    case True
    then show ?thesis using 1 by (subst findFreeFolder.simps) simp
  next
    case False
    then show ?thesis by (subst findFreeFolder.simps) simp
  qed
qed

lemma generateFolderName_free: "generateFolderName db chatTitle topicName key \<notin> taken db"
  using findFreeFolder_free by (simp add: generateFolderName_def Let_def getTopicByFolder_None)

lemma getTopic_None: "getTopic db c t = None \<longleftrightarrow> (c, t) \<notin> topic_key ` set (topics db)"
  by (auto simp: getTopic_def find_None_iff topic_key_def)

lemma getTopic_Some:
  "getTopic db c t = Some r \<Longrightarrow> r \<in> set (topics db) \<and> topic_key r = (c, t)"
  by (auto simp: getTopic_def topic_key_def find_Some_iff)

lemma find_distinct_key:
  "distinct (map g xs) \<Longrightarrow> x \<in> set xs \<Longrightarrow> find (\<lambda>y. g y = g x) xs = Some x"
  by (induction xs) (auto simp: image_iff)

lemma getTopicByFolder_row:
  "router_inv db \<Longrightarrow> r \<in> set (topics db) \<Longrightarrow> getTopicByFolder db (tp_folder r) = Some r"
  using find_distinct_key [of tp_folder "topics db" r]
  by (simp add: router_inv_def getTopicByFolder_def)

lemma getTopic_row:
  "router_inv db \<Longrightarrow> r \<in> set (topics db) \<Longrightarrow> getTopic db (tp_chat_id r) (tp_topic_id r) = Some r"
proof -
  assume i: "router_inv db" and r: "r \<in> set (topics db)"
  have "(\<lambda>y. tp_chat_id y = tp_chat_id r \<and> tp_topic_id y = tp_topic_id r) = (\<lambda>y. topic_key y = topic_key r)"
    by (auto simp: topic_key_def)
  then show ?thesis
    using find_distinct_key [of topic_key "topics db" r] i r
    by (simp add: router_inv_def getTopic_def)
qed

text \<open>One observation.\<close>

lemma getSessionFolder_existing:
  "getTopic db (chatId key) (topicId key) = Some r \<Longrightarrow>
   getSessionFolder db now key chatTitle topicName = (tp_folder r, db)"
  by (simp add: getSessionFolder_def)

lemma getSessionFolder_new:
  assumes "getTopic db (chatId key) (topicId key) = None"
  shows "getSessionFolder db now key chatTitle topicName =
    (generateFolderName db chatTitle topicName key,
     db\<lparr>topics := topics db @
        [\<lparr>tp_chat_id = chatId key, tp_topic_id = topicId key, tp_topic_name = topicName,
          tp_folder = generateFolderName db chatTitle topicName key,
          tp_trigger_mode = ''mention'', tp_last_message_time = Some now\<rparr>]\<rparr>)"
  using assms by (simp add: getSessionFolder_def upsertTopic_def Let_def)

lemma getSessionFolder_inv:
  assumes "router_inv db"
  shows "router_inv (snd (getSessionFolder db now key chatTitle topicName))"
proof (cases "getTopic db (chatId key) (topicId key)")
  case None
  have "generateFolderName db chatTitle topicName key \<notin> tp_folder ` set (topics db)"
    using generateFolderName_free [of db chatTitle topicName key] by (simp add: taken_def)
  moreover have "(chatId key, topicId key) \<notin> topic_key ` set (topics db)"
    using None by (simp add: getTopic_None)
  ultimately show ?thesis
    using assms by (simp add: getSessionFolder_new [OF None] router_inv_def topic_key_def)
next
  case (Some r)
  then show ?thesis using assms by (simp add: getSessionFolder_existing)
qed

lemma getSessionFolder_assigned:
  assumes "router_inv db"
  shows "\<exists>r. getTopic (snd (getSessionFolder db now key chatTitle topicName)) (chatId key) (topicId key)
            = Some r \<and>
            tp_folder r = fst (getSessionFolder db now key chatTitle topicName)"
proof (cases "getTopic db (chatId key) (topicId key)")
  case None
  let ?row = "\<lparr>tp_chat_id = chatId key, tp_topic_id = topicId key, tp_topic_name = topicName,
          tp_folder = generateFolderName db chatTitle topicName key,
          tp_trigger_mode = ''mention'', tp_last_message_time = Some now\<rparr>"
  have i: "router_inv (snd (getSessionFolder db now key chatTitle topicName))"
    using assms by (rule getSessionFolder_inv)
  have "?row \<in> set (topics (snd (getSessionFolder db now key chatTitle topicName)))"
    by (simp add: getSessionFolder_new [OF None])
  from getTopic_row [OF i this] show ?thesis
    by (simp add: getSessionFolder_new [OF None])
next
  case (Some r)
  then show ?thesis by (simp add: getSessionFolder_existing)
qed

lemma find_append_Some: "find P xs = Some x \<Longrightarrow> find P (xs @ ys) = Some x"
  by (induction xs) auto

lemma getSessionFolder_keeps:
  assumes "getTopic db c t = Some r"
  shows "getTopic (snd (getSessionFolder db now key chatTitle topicName)) c t = Some r"
proof (cases "getTopic db (chatId key) (topicId key)")
  case None
  show ?thesis using assms
    by (simp add: getSessionFolder_new [OF None] getTopic_def find_append_Some)
next
  case (Some r')
  then show ?thesis using assms by (simp add: getSessionFolder_existing)
qed

text \<open>One update of a topic timestamp.\<close>

lemma updateTopicTimestamp_inv: "router_inv db \<Longrightarrow> router_inv (updateTopicTimestamp db now c t)"
proof -
  have "map tp_folder (topics (updateTopicTimestamp db now c t)) = map tp_folder (topics db)"
    by (simp add: updateTopicTimestamp_def comp_def cong: map_cong)
  moreover have "map topic_key (topics (updateTopicTimestamp db now c t)) = map topic_key (topics db)"
    by (simp add: updateTopicTimestamp_def comp_def topic_key_def cong: map_cong)
  ultimately show "router_inv db \<Longrightarrow> router_inv (updateTopicTimestamp db now c t)"
    by (simp add: router_inv_def)
qed

lemma find_map_keep:
  assumes "\<And>x. P (f x) = P x"
  shows "find P (map f xs) = map_option f (find P xs)"
  using assms by (induction xs) auto

lemma updateTopicTimestamp_keeps:
  assumes "getTopic db c t = Some r"
  shows "\<exists>r'. getTopic (updateTopicTimestamp db now c' t') c t = Some r' \<and> tp_folder r' = tp_folder r"
proof -
  let ?f = "\<lambda>r. if tp_chat_id r = c' \<and> tp_topic_id r = t'
                   then r\<lparr>tp_last_message_time := Some now\<rparr> else r"
  have "find (\<lambda>r. tp_chat_id r = c \<and> tp_topic_id r = t) (map ?f (topics db)) =
        map_option ?f (find (\<lambda>r. tp_chat_id r = c \<and> tp_topic_id r = t) (topics db))"
    by (rule find_map_keep) simp
  then have "getTopic (updateTopicTimestamp db now c' t') c t = Some (?f r)"
    using assms by (simp add: getTopic_def updateTopicTimestamp_def)
  then show ?thesis by simp
qed

text \<open>Lists of operations.\<close>

lemma routerStep_inv: "router_inv db \<Longrightarrow> router_inv (routerStep db op)"
  by (cases op) (simp_all add: getSessionFolder_inv updateTopicTimestamp_inv)

lemma routerRun_inv: "router_inv db \<Longrightarrow> router_inv (routerRun ops db)"
  unfolding routerRun_def by (induction ops arbitrary: db) (simp_all add: routerStep_inv)

lemma routerStep_keeps:
  assumes "getTopic db c t = Some r"
  shows "\<exists>r'. getTopic (routerStep db op) c t = Some r' \<and> tp_folder r' = tp_folder r"
proof (cases op)
  case (Observe key chatTitle topicName now)
  then show ?thesis using getSessionFolder_keeps [OF assms] by simp
next
  case (Touch c' t' now)
  then show ?thesis using updateTopicTimestamp_keeps [OF assms] by simp
qed

lemma routerRun_keeps:
  "getTopic db c t = Some r \<Longrightarrow>
   \<exists>r'. getTopic (routerRun ops db) c t = Some r' \<and> tp_folder r' = tp_folder r"
proof (induction ops arbitrary: db r)
  case Nil
  then show ?case by (simp add: routerRun_def)
next
  case (Cons op ops)
  obtain r1 where 1: "getTopic (routerStep db op) c t = Some r1" "tp_folder r1 = tp_folder r"
    using routerStep_keeps [OF Cons.prems] by blast
  obtain r2 where "getTopic (routerRun ops (routerStep db op)) c t = Some r2" "tp_folder r2 = tp_folder r1"
    using Cons.IH [OF 1(1)] by blast
  then show ?case using 1(2) by (simp add: routerRun_def)
qed

lemma router_inv_empty: "router_inv empty_store"
  by (simp add: router_inv_def empty_store_def)

text \<open>
  Claim C8. Start from the empty store and let the router and the message store write
  to the topics table in any order (\<open>ops\<close>); let the router then be asked for the
  folder of a chat and topic, seen before or not; let any further writes follow
  (\<open>later\<close>). Then the folders of the table are pairwise different, the topic found by
  the assigned folder is that chat and topic, and the router asked again for the pair,
  under whatever title and topic name, answers with the same folder.
\<close>

theorem router_bijection:
  "distinct (map tp_folder (topics
      (routerRun later (snd (getSessionFolder (routerRun ops empty_store) now key chatTitle topicName)))))
   \<and> map_option topic_key
       (getTopicByFolder
          (routerRun later (snd (getSessionFolder (routerRun ops empty_store) now key chatTitle topicName)))
          (fst (getSessionFolder (routerRun ops empty_store) now key chatTitle topicName)))
      = Some (chatId key, topicId key)
   \<and> fst (getSessionFolder
          (routerRun later (snd (getSessionFolder (routerRun ops empty_store) now key chatTitle topicName)))
          now1 key chatTitle1 topicName1)
      = fst (getSessionFolder (routerRun ops empty_store) now key chatTitle topicName)"
proof -
  let ?db = "routerRun ops empty_store"
  let ?f = "fst (getSessionFolder ?db now key chatTitle topicName)"
  let ?db1 = "snd (getSessionFolder ?db now key chatTitle topicName)"
  let ?db2 = "routerRun later ?db1"
  have i: "router_inv ?db" by (rule routerRun_inv [OF router_inv_empty])
  have i1: "router_inv ?db1" by (rule getSessionFolder_inv [OF i])
  have i2: "router_inv ?db2" by (rule routerRun_inv [OF i1])
  obtain r where r: "getTopic ?db1 (chatId key) (topicId key) = Some r" "tp_folder r = ?f"
    using getSessionFolder_assigned [OF i] by blast
  obtain r2 where r2: "getTopic ?db2 (chatId key) (topicId key) = Some r2" "tp_folder r2 = tp_folder r"
    using routerRun_keeps [OF r(1)] by blast
  have m: "r2 \<in> set (topics ?db2)" and k: "topic_key r2 = (chatId key, topicId key)"
    using getTopic_Some [OF r2(1)] by simp_all
  have "getTopicByFolder ?db2 (tp_folder r2) = Some r2" by (rule getTopicByFolder_row [OF i2 m])
  then have a: "map_option topic_key (getTopicByFolder ?db2 ?f) = Some (chatId key, topicId key)"
    using r2(2) r(2) k by simp
  have b: "fst (getSessionFolder ?db2 now1 key chatTitle1 topicName1) = ?f"
    using r2 r(2) by (simp add: getSessionFolder_existing)
  have c: "distinct (map tp_folder (topics ?db2))" using i2 by (simp add: router_inv_def)
  show ?thesis by (intro conjI) (rule c, rule a, rule b)
qed

section \<open>The folder \<open>main\<close> is not reserved\<close>

lemma find_append_None: "find P xs = None \<Longrightarrow> find P (xs @ ys) = find P ys"
  by (induction xs) (auto split: if_splits)

lemma findFreeFolder_unused:
  "getTopicByFolder db fld = None \<Longrightarrow> findFreeFolder db baseName fld counter = fld"
  by (subst findFreeFolder.simps) simp

lemma getSessionFolder_first_sighting:
  assumes "getTopic db (chatId key) (topicId key) = None"
  shows "fst (getSessionFolder db now key chatTitle topicName) =
           generateFolderName db chatTitle topicName key"
    and "map_option tp_folder
           (getTopic (snd (getSessionFolder db now key chatTitle topicName)) (chatId key) (topicId key))
         = Some (generateFolderName db chatTitle topicName key)"
proof -
  show "fst (getSessionFolder db now key chatTitle topicName) =
           generateFolderName db chatTitle topicName key"
    using assms by (simp add: getSessionFolder_def Let_def)
  have "find (\<lambda>r. tp_chat_id r = chatId key \<and> tp_topic_id r = topicId key) (topics db) = None"
    using assms by (simp add: getTopic_def)
  then show "map_option tp_folder
           (getTopic (snd (getSessionFolder db now key chatTitle topicName)) (chatId key) (topicId key))
         = Some (generateFolderName db chatTitle topicName key)"
    using assms
    by (simp add: getSessionFolder_def Let_def upsertTopic_def getTopic_def find_append_None)
qed

lemma checkTrigger_main: "checkTrigger assistant text trigger ''main''"
  by (simp add: checkTrigger_def isMainFolder_def MAIN_FOLDER_def)

lemma launchMounts_main:
  assumes "ci_isMain input"
  shows "hd (launchMounts env fld name input cfg) =
           \<lparr>vm_hostPath = me_cwd env, vm_containerPath = ''/workspace/project'',
            vm_readonly = Some False\<rparr>"
    and "take 2 (drop 3 (buildContainerArgs warmTimeout img
           (launchMounts env fld name input cfg) warm)) =
         [''-v'', me_cwd env @ '':/workspace/project'']"
proof -
  obtain rest where r: "launchMounts env fld name input cfg =
      \<lparr>vm_hostPath = me_cwd env, vm_containerPath = ''/workspace/project'',
       vm_readonly = Some False\<rparr> # rest"
    using assms by (simp add: launchMounts_def buildVolumeMounts_def Let_def)
  show "hd (launchMounts env fld name input cfg) =
           \<lparr>vm_hostPath = me_cwd env, vm_containerPath = ''/workspace/project'',
            vm_readonly = Some False\<rparr>"
    by (simp add: r)
  show "take 2 (drop 3 (buildContainerArgs warmTimeout img
           (launchMounts env fld name input cfg) warm)) =
         [''-v'', me_cwd env @ '':/workspace/project'']"
    by (simp add: r buildContainerArgs_def mount_arg_def)
qed

text \<open>
  Claim C10, as the code has it. Let the title of a chat slugify to \<open>main\<close>, the topic
  id be 0 and no topic own the folder \<open>main\<close>. Then \<open>generateFolderName\<close> answers
  \<open>main\<close>, and \<open>getSessionFolder\<close>, which asks it only for a pair without a topic
  row, returns \<open>main\<close> for a chat it sees for the first time and stores it as the
  folder of the pair. In that folder every
  text passes \<open>checkTrigger\<close> under every trigger configuration, the input of the worker
  is marked \<open>isMain\<close>, and the first mount of the worker, warm or cold, is the project
  root at \<open>/workspace/project\<close>, not read-only.
\<close>

theorem main_folder_not_reserved:
  assumes "slugify chatTitle = ''main''" and "topicId key = 0"
    and "getTopicByFolder db ''main'' = None"
  shows "generateFolderName db chatTitle topicName key = ''main''
    \<and> (getTopic db (chatId key) (topicId key) = None \<longrightarrow>
          fst (getSessionFolder db now key chatTitle topicName) = ''main'' \<and>
          map_option tp_folder
            (getTopic (snd (getSessionFolder db now key chatTitle topicName)) (chatId key) (topicId key))
          = Some ''main'')
    \<and> (\<forall>text trigger. checkTrigger assistant text trigger ''main'')
    \<and> ci_isMain (runAgentInput sessions ''main'' registeredChat key prompt)
    \<and> hd (launchMounts env ''main'' name
             (runAgentInput sessions ''main'' registeredChat key prompt) cfg) =
          \<lparr>vm_hostPath = me_cwd env, vm_containerPath = ''/workspace/project'',
           vm_readonly = Some False\<rparr>
    \<and> take 2 (drop 3 (buildContainerArgs warmTimeout img
             (launchMounts env ''main'' name
                (runAgentInput sessions ''main'' registeredChat key prompt) cfg) warm)) =
          [''-v'', me_cwd env @ '':/workspace/project'']"
proof -
  have g: "generateFolderName db chatTitle topicName key = ''main''"
    using assms by (simp add: generateFolderName_def Let_def findFreeFolder_unused)
  have s: "getTopic db (chatId key) (topicId key) = None \<longrightarrow>
          fst (getSessionFolder db now key chatTitle topicName) = ''main'' \<and>
          map_option tp_folder
            (getTopic (snd (getSessionFolder db now key chatTitle topicName)) (chatId key) (topicId key))
          = Some ''main''"
    using getSessionFolder_first_sighting [of db key now chatTitle topicName] g by simp
  have t: "\<forall>text trigger. checkTrigger assistant text trigger ''main''"
    using checkTrigger_main by blast
  have m: "ci_isMain (runAgentInput sessions ''main'' registeredChat key prompt)"
    by (simp add: runAgentInput_def isMainFolder_def MAIN_FOLDER_def)
  show ?thesis
    using g s t m launchMounts_main [OF m] by blast
qed

text \<open>The theorem at a new chat with the title \<open>Main!\<close> and a disabled trigger.\<close>

theorem main_folder_not_reserved_witness:
  "fst (getSessionFolder empty_store ''2026-01-31T10:00:00.000Z'' \<lparr>chatId = 300, topicId = 0\<rparr>
          ''Main!'' ''General'') = ''main''
   \<and> checkTrigger ''Nanomi'' ''hello'' \<lparr>mode = ''disabled'', mentionPattern = None\<rparr> ''main''
   \<and> hd (launchMounts bare_host ''main'' ''Main!''
           (runAgentInput Map.empty ''main'' family_chat \<lparr>chatId = 300, topicId = 0\<rparr> ''hi'') None) =
        \<lparr>vm_hostPath = ''/srv/nanoclaw'', vm_containerPath = ''/workspace/project'',
         vm_readonly = Some False\<rparr>"
proof -
  have h1: "slugify ''Main!'' = ''main''" by code_simp
  have h2: "topicId \<lparr>chatId = 300, topicId = 0\<rparr> = 0" by simp
  have h3: "getTopicByFolder empty_store ''main'' = None"
    by (simp add: getTopicByFolder_def empty_store_def)
  have h4: "getTopic empty_store (chatId \<lparr>chatId = 300, topicId = 0\<rparr>) (topicId \<lparr>chatId = 300, topicId = 0\<rparr>) = None"
    by (simp add: getTopic_def empty_store_def)
  have c: "me_cwd bare_host = ''/srv/nanoclaw''" by (simp add: bare_host_def)
  note t = main_folder_not_reserved [OF h1 h2 h3, of "''General''" "''2026-01-31T10:00:00.000Z''"
      "''Nanomi''" Map.empty family_chat "''hi''" bare_host "''Main!''" None]
  have 1: "fst (getSessionFolder empty_store ''2026-01-31T10:00:00.000Z'' \<lparr>chatId = 300, topicId = 0\<rparr>
          ''Main!'' ''General'') = ''main''"
    using t h4 by blast
  have 2: "checkTrigger ''Nanomi'' ''hello'' \<lparr>mode = ''disabled'', mentionPattern = None\<rparr> ''main''"
    using t by blast
  have 3: "hd (launchMounts bare_host ''main'' ''Main!''
           (runAgentInput Map.empty ''main'' family_chat \<lparr>chatId = 300, topicId = 0\<rparr> ''hi'') None) =
        \<lparr>vm_hostPath = ''/srv/nanoclaw'', vm_containerPath = ''/workspace/project'',
         vm_readonly = Some False\<rparr>"
    using t unfolding c by blast
  show ?thesis by (intro conjI) (rule 1, rule 2, rule 3)
qed

text \<open>
  Claim C10 as stated fails for a chat that has a topic row: \<open>getSessionFolder\<close>
  returns the stored folder and never asks \<open>generateFolderName\<close>. The chat 300 was
  first seen under the title \<open>Family\<close>; with the title \<open>Main!\<close>, the topic id 0 and no
  topic owning \<open>main\<close> it stays in the folder \<open>family\<close>, where a disabled trigger lets
  no message pass and the worker gets the group folder and not the project root.
\<close>

theorem renamed_chat_keeps_folder:
  "slugify ''Main!'' = ''main'' \<and>
   topicId \<lparr>chatId = 300, topicId = 0\<rparr> = 0 \<and>
   getTopicByFolder renamed_store ''main'' = None \<and>
   fst (getSessionFolder renamed_store ''2026-01-31T10:00:00.000Z'' \<lparr>chatId = 300, topicId = 0\<rparr>
          ''Main!'' ''General'') = ''family'' \<and>
   \<not> checkTrigger ''Nanomi'' ''hello'' \<lparr>mode = ''disabled'', mentionPattern = None\<rparr> ''family'' \<and>
   \<not> ci_isMain (runAgentInput Map.empty ''family'' family_chat \<lparr>chatId = 300, topicId = 0\<rparr> ''hi'') \<and>
   map vm_containerPath (launchMounts bare_host ''family'' ''Main!''
        (runAgentInput Map.empty ''family'' family_chat \<lparr>chatId = 300, topicId = 0\<rparr> ''hi'') None) =
     [''/workspace/group'', ''/home/node/.claude'', ''/workspace/ipc'']"
  by code_simp

section \<open>Properties of the warm container pool\<close>

lemma pool_inv_new: "pool_inv new_pool"
  by (simp add: pool_inv_def new_pool_def)

lemma pool_invI:
  assumes "\<And>rid. rid < length (requests pool) \<Longrightarrow>
             rq_container (requests pool ! rid) < length (objects pool)"
    and "\<And>rid. rid < length (requests pool) \<Longrightarrow> \<not> rq_resolved (requests pool ! rid) \<Longrightarrow>
             wc_resolveMessage (objects pool ! rq_container (requests pool ! rid)) = Some rid"
    and "\<And>w. w < length (objects pool) \<Longrightarrow>
             wc_processing (objects pool ! w) \<longleftrightarrow> wc_resolveMessage (objects pool ! w) \<noteq> None"
    and "\<And>w rid. w < length (objects pool) \<Longrightarrow> wc_resolveMessage (objects pool ! w) = Some rid \<Longrightarrow>
             rid < length (requests pool) \<and> rq_container (requests pool ! rid) = w \<and>
             \<not> rq_resolved (requests pool ! rid)"
    and "\<And>w. w < length (objects pool) \<Longrightarrow> wc_processing (objects pool ! w) \<Longrightarrow>
             wc_started (objects pool ! w)"
    and "\<And>fld w. containers pool fld = Some w \<Longrightarrow>
             w < length (objects pool) \<and> wc_started (objects pool ! w)"
  shows "pool_inv pool"
  unfolding pool_inv_def using assms by blast

lemma pool_invD:
  assumes "pool_inv pool"
  shows "rid < length (requests pool) \<Longrightarrow>
             rq_container (requests pool ! rid) < length (objects pool)"
    and "rid < length (requests pool) \<Longrightarrow> \<not> rq_resolved (requests pool ! rid) \<Longrightarrow>
             wc_resolveMessage (objects pool ! rq_container (requests pool ! rid)) = Some rid"
    and "w < length (objects pool) \<Longrightarrow>
             wc_processing (objects pool ! w) \<longleftrightarrow> wc_resolveMessage (objects pool ! w) \<noteq> None"
    and "w < length (objects pool) \<Longrightarrow> wc_resolveMessage (objects pool ! w) = Some rid \<Longrightarrow>
             rid < length (requests pool) \<and> rq_container (requests pool ! rid) = w \<and>
             \<not> rq_resolved (requests pool ! rid)"
    and "w < length (objects pool) \<Longrightarrow> wc_processing (objects pool ! w) \<Longrightarrow>
             wc_started (objects pool ! w)"
    and "containers pool fld = Some w \<Longrightarrow> w < length (objects pool) \<and> wc_started (objects pool ! w)"
  using assms unfolding pool_inv_def by blast+

lemma nth_update_any:
  "xs[i := v] ! j = (if i = j \<and> i < length xs then v else xs ! j)"
  by (cases "i < length xs") (simp_all add: nth_list_update list_update_beyond)

text \<open>A change of the map, of fields other than the resolver, a new object.\<close>

lemma pool_inv_containers:
  assumes "pool_inv pool"
    and "\<And>w. v = Some w \<Longrightarrow> w < length (objects pool) \<and> wc_started (objects pool ! w)"
  shows "pool_inv (pool\<lparr>containers := (containers pool)(fld := v)\<rparr>)"
proof (rule pool_invI)
  fix f w assume "containers (pool\<lparr>containers := (containers pool)(fld := v)\<rparr>) f = Some w"
  then show "w < length (objects (pool\<lparr>containers := (containers pool)(fld := v)\<rparr>)) \<and>
      wc_started (objects (pool\<lparr>containers := (containers pool)(fld := v)\<rparr>) ! w)"
    using assms(2) pool_invD(6) [OF assms(1)] by (cases "f = fld") auto
qed (use pool_invD [OF assms(1)] in simp_all)

lemma pool_inv_update_flags:
  assumes "pool_inv pool"
    and "\<And>c. wc_processing (f c) = wc_processing c"
    and "\<And>c. wc_resolveMessage (f c) = wc_resolveMessage c"
    and "\<And>c. wc_started c \<Longrightarrow> wc_started (f c)"
  shows "pool_inv (update_object pool w f)"
proof -
  let ?p = "update_object pool w f"
  have p: "wc_processing (objects ?p ! x) = wc_processing (objects pool ! x)"
    and r: "wc_resolveMessage (objects ?p ! x) = wc_resolveMessage (objects pool ! x)"
    and s: "wc_started (objects pool ! x) \<Longrightarrow> wc_started (objects ?p ! x)" for x
    by (simp_all add: update_object_def nth_update_any assms(2,3,4))
  have l: "length (objects ?p) = length (objects pool)" and q: "requests ?p = requests pool"
    and m: "containers ?p = containers pool"
    by (simp_all add: update_object_def)
  show ?thesis
  proof (rule pool_invI)
    fix rid assume a: "rid < length (requests ?p)"
    then show "rq_container (requests ?p ! rid) < length (objects ?p)"
      using pool_invD(1) [OF assms(1), of rid] by (simp add: l q)
    assume "\<not> rq_resolved (requests ?p ! rid)"
    then show "wc_resolveMessage (objects ?p ! rq_container (requests ?p ! rid)) = Some rid"
      using a pool_invD(2) [OF assms(1), of rid] by (simp add: q r)
  next
    fix x assume a: "x < length (objects ?p)"
    then show "wc_processing (objects ?p ! x) \<longleftrightarrow> wc_resolveMessage (objects ?p ! x) \<noteq> None"
      using pool_invD(3) [OF assms(1), of x] by (simp add: l p r)
    { fix rid assume "wc_resolveMessage (objects ?p ! x) = Some rid"
      then show "rid < length (requests ?p) \<and> rq_container (requests ?p ! rid) = x \<and>
          \<not> rq_resolved (requests ?p ! rid)"
        using a pool_invD(4) [OF assms(1), of x rid] by (simp add: l q r) }
    assume "wc_processing (objects ?p ! x)"
    then show "wc_started (objects ?p ! x)"
      using a pool_invD(5) [OF assms(1), of x] s [of x] by (simp add: l p)
  next
    fix fld x assume "containers ?p fld = Some x"
    then show "x < length (objects ?p) \<and> wc_started (objects ?p ! x)"
      using pool_invD(6) [OF assms(1), of fld x] s [of x] by (simp add: l m)
  qed
qed

lemma pool_inv_spawn:
  assumes "pool_inv pool"
  shows "pool_inv (fst (spawnWarmContainer pool fld))"
proof (rule pool_invI)
  let ?p = "fst (spawnWarmContainer pool fld)"
  have o: "objects ?p = objects pool @
        [\<lparr>wc_folder = fld, wc_ready = False, wc_processing = False, wc_resolveMessage = None,
          wc_started = False, wc_spawnFailed = False, wc_killed = False, wc_exited = False\<rparr>]"
    and q: "requests ?p = requests pool" and m: "containers ?p = containers pool"
    by (simp_all add: spawnWarmContainer_def)
  { fix rid assume a: "rid < length (requests ?p)"
    then show "rq_container (requests ?p ! rid) < length (objects ?p)"
      using pool_invD(1) [OF assms, of rid] by (simp add: o q)
    assume "\<not> rq_resolved (requests ?p ! rid)"
    then show "wc_resolveMessage (objects ?p ! rq_container (requests ?p ! rid)) = Some rid"
      using a pool_invD(1,2) [OF assms, of rid] by (simp add: o q nth_append) }
  { fix x assume a: "x < length (objects ?p)"
    show "wc_processing (objects ?p ! x) \<longleftrightarrow> wc_resolveMessage (objects ?p ! x) \<noteq> None"
      using a pool_invD(3) [OF assms, of x] by (cases "x < length (objects pool)") (simp_all add: o nth_append)
    { fix rid assume "wc_resolveMessage (objects ?p ! x) = Some rid"
      then show "rid < length (requests ?p) \<and> rq_container (requests ?p ! rid) = x \<and>
          \<not> rq_resolved (requests ?p ! rid)"
        using a pool_invD(4) [OF assms, of x rid]
        by (cases "x < length (objects pool)") (simp_all add: o q nth_append) }
    assume "wc_processing (objects ?p ! x)"
    then show "wc_started (objects ?p ! x)"
      using a pool_invD(5) [OF assms, of x]
      by (cases "x < length (objects pool)") (simp_all add: o nth_append) }
  { fix f x assume "containers ?p f = Some x"
    then show "x < length (objects ?p) \<and> wc_started (objects ?p ! x)"
      using pool_invD(6) [OF assms, of f x] by (simp add: o m nth_append) }
qed

text \<open>A request sent to an object that is not processing, and the resolution of a
  request.\<close>

lemma pool_inv_send:
  assumes "pool_inv pool" and w: "w < length (objects pool)"
    and np: "\<not> wc_processing (objects pool ! w)" and st: "wc_started (objects pool ! w)"
  shows "pool_inv (fst (sendToWarmContainer pool w))"
proof (rule pool_invI)
  let ?p = "fst (sendToWarmContainer pool w)"
  let ?n = "length (requests pool)"
  have o: "objects ?p = (objects pool)[w := (objects pool ! w)
              \<lparr>wc_processing := True, wc_resolveMessage := Some ?n\<rparr>]"
    and q: "requests ?p = requests pool @ [\<lparr>rq_container = w, rq_resolved = False\<rparr>]"
    and m: "containers ?p = containers pool"
    by (simp_all add: sendToWarmContainer_def update_object_def Let_def)
  have none: "wc_resolveMessage (objects pool ! w) = None"
    using pool_invD(3) [OF assms(1) w] np by simp
  have other: "rq_container (requests pool ! rid) \<noteq> w"
    if "rid < ?n" "\<not> rq_resolved (requests pool ! rid)" for rid
    using pool_invD(2) [OF assms(1) that] none by auto
  { fix rid assume a: "rid < length (requests ?p)"
    show "rq_container (requests ?p ! rid) < length (objects ?p)"
      using a pool_invD(1) [OF assms(1), of rid] w
      by (cases "rid < ?n") (simp_all add: o q nth_append)
    assume u: "\<not> rq_resolved (requests ?p ! rid)"
    show "wc_resolveMessage (objects ?p ! rq_container (requests ?p ! rid)) = Some rid"
    proof (cases "rid < ?n")
      case True
      then have "\<not> rq_resolved (requests pool ! rid)" using u by (simp add: q nth_append)
      then show ?thesis
        using True other [OF True] pool_invD(2) [OF assms(1) True]
        by (simp add: o q nth_append nth_update_any)
    next
      case False
      then have "rid = ?n" using a by (simp add: q)
      then show ?thesis using w by (simp add: o q nth_append)
    qed }
  { fix x assume a: "x < length (objects ?p)"
    show "wc_processing (objects ?p ! x) \<longleftrightarrow> wc_resolveMessage (objects ?p ! x) \<noteq> None"
      using a pool_invD(3) [OF assms(1), of x] by (simp add: o nth_update_any)
    { fix rid assume r: "wc_resolveMessage (objects ?p ! x) = Some rid"
      show "rid < length (requests ?p) \<and> rq_container (requests ?p ! rid) = x \<and>
          \<not> rq_resolved (requests ?p ! rid)"
      proof (cases "x = w")
        case True
        then have "rid = ?n" using r w by (simp add: o)
        then show ?thesis using True by (simp add: q)
      next
        case False
        then have "wc_resolveMessage (objects pool ! x) = Some rid" using r by (simp add: o)
        then show ?thesis using a pool_invD(4) [OF assms(1), of x rid] by (simp add: o q nth_append)
      qed }
    assume "wc_processing (objects ?p ! x)"
    then show "wc_started (objects ?p ! x)"
      using a pool_invD(5) [OF assms(1), of x] st by (cases "x = w") (simp_all add: o) }
  { fix f x assume "containers ?p f = Some x"
    then show "x < length (objects ?p) \<and> wc_started (objects ?p ! x)"
      using pool_invD(6) [OF assms(1), of f x] by (simp add: o m nth_update_any) }
qed

lemma pool_inv_cleanup:
  assumes "pool_inv pool" and rid: "rid < length (requests pool)"
  shows "pool_inv (fst (cleanupAndResolve pool rid))"
proof (cases "rq_resolved (requests pool ! rid)")
  case True
  then show ?thesis using assms(1) by (simp add: cleanupAndResolve_def)
next
  case False
  let ?w = "rq_container (requests pool ! rid)"
  let ?p = "fst (cleanupAndResolve pool rid)"
  have o: "objects ?p = (objects pool)[?w := (objects pool ! ?w)
              \<lparr>wc_processing := False, wc_resolveMessage := None\<rparr>]"
    and q: "requests ?p = (requests pool)[rid := (requests pool ! rid)\<lparr>rq_resolved := True\<rparr>]"
    and m: "containers ?p = containers pool"
    using False by (simp_all add: cleanupAndResolve_def update_object_def Let_def)
  have w: "?w < length (objects pool)" by (rule pool_invD(1) [OF assms(1) rid])
  have res: "wc_resolveMessage (objects pool ! ?w) = Some rid"
    by (rule pool_invD(2) [OF assms(1) rid False])
  show ?thesis
  proof (rule pool_invI)
    fix r assume a: "r < length (requests ?p)"
    show "rq_container (requests ?p ! r) < length (objects ?p)"
      using a pool_invD(1) [OF assms(1), of r] by (simp add: o q nth_update_any)
    assume u: "\<not> rq_resolved (requests ?p ! r)"
    then have ne: "r \<noteq> rid" using a by (auto simp: q)
    then have u': "\<not> rq_resolved (requests pool ! r)" and r: "r < length (requests pool)"
      using u a by (simp_all add: q)
    have "wc_resolveMessage (objects pool ! rq_container (requests pool ! r)) = Some r"
      by (rule pool_invD(2) [OF assms(1) r u'])
    then have "rq_container (requests pool ! r) \<noteq> ?w" using res ne by auto
    then show "wc_resolveMessage (objects ?p ! rq_container (requests ?p ! r)) = Some r"
      using ne pool_invD(2) [OF assms(1) r u'] by (simp add: o q)
  next
    fix x assume a: "x < length (objects ?p)"
    show "wc_processing (objects ?p ! x) \<longleftrightarrow> wc_resolveMessage (objects ?p ! x) \<noteq> None"
      using a pool_invD(3) [OF assms(1), of x] by (simp add: o nth_update_any)
    { fix r assume r: "wc_resolveMessage (objects ?p ! x) = Some r"
      then have xw: "x \<noteq> ?w" using w by (auto simp: o)
      then have r': "wc_resolveMessage (objects pool ! x) = Some r" using r by (simp add: o)
      have d: "r < length (requests pool) \<and> rq_container (requests pool ! r) = x \<and>
          \<not> rq_resolved (requests pool ! r)"
        using a pool_invD(4) [OF assms(1) _ r'] by (simp add: o)
      then have "r \<noteq> rid" using xw by auto
      then show "r < length (requests ?p) \<and> rq_container (requests ?p ! r) = x \<and>
          \<not> rq_resolved (requests ?p ! r)"
        using d by (simp add: q) }
    assume "wc_processing (objects ?p ! x)"
    then show "wc_started (objects ?p ! x)"
      using a pool_invD(5) [OF assms(1), of x] by (cases "x = ?w") (simp_all add: o)
  next
    fix f x assume "containers ?p f = Some x"
    then show "x < length (objects ?p) \<and> wc_started (objects ?p ! x)"
      using pool_invD(6) [OF assms(1), of f x] by (simp add: o m nth_update_any)
  qed
qed

text \<open>Every handler keeps these facts.\<close>

lemma update_object_simps:
  "containers (update_object pool w f) = containers pool"
  "requests (update_object pool w f) = requests pool"
  "length (objects (update_object pool w f)) = length (objects pool)"
  "w < length (objects pool) \<Longrightarrow> objects (update_object pool w f) ! w = f (objects pool ! w)"
  by (simp_all add: update_object_def)

lemma pool_inv_run_request:
  assumes "pool_inv pool"
  shows "pool_inv (fst (poolStep warmTimeout pool (RunRequest fld)))"
proof (cases "containers pool fld")
  case None
  then show ?thesis using assms pool_inv_spawn [OF assms, of fld] by simp
next
  case (Some w)
  have w: "w < length (objects pool)" "wc_started (objects pool ! w)"
    using pool_invD(6) [OF assms Some] by simp_all
  show ?thesis
    using Some assms pool_inv_spawn [OF assms, of fld] pool_inv_send [OF assms w(1) _ w(2)]
    by simp
qed

lemma pool_inv_spawn_poll:
  assumes "pool_inv pool"
  shows "pool_inv (fst (poolStep warmTimeout pool (SpawnPoll w)))"
proof (cases "w < length (objects pool) \<and> \<not> wc_started (objects pool ! w) \<and>
         \<not> wc_spawnFailed (objects pool ! w) \<and> wc_ready (objects pool ! w)")
  case False
  then show ?thesis using assms by auto
next
  case True
  let ?p1 = "update_object pool w (\<lambda>c. c\<lparr>wc_started := True\<rparr>)"
  let ?p2 = "?p1\<lparr>containers := (containers ?p1)(wc_folder (objects pool ! w) := Some w)\<rparr>"
  have np: "\<not> wc_processing (objects pool ! w)"
    using True pool_invD(5) [OF assms, of w] by blast
  have 1: "pool_inv ?p1" by (rule pool_inv_update_flags [OF assms]) simp_all
  have 2: "pool_inv ?p2"
    by (rule pool_inv_containers [OF 1]) (use True in \<open>simp add: update_object_simps\<close>)
  have "pool_inv (fst (sendToWarmContainer ?p2 w))"
    by (rule pool_inv_send [OF 2]) (use True np in \<open>simp_all add: update_object_simps\<close>)
  then show ?thesis using True by (simp add: Let_def)
qed

lemma pool_inv_request_timeout:
  assumes "pool_inv pool"
  shows "pool_inv (fst (poolStep warmTimeout pool (RequestTimeout rid)))"
proof (cases "rid < length (requests pool) \<and> \<not> rq_resolved (requests pool ! rid)")
  case False
  then show ?thesis using assms by auto
next
  case True
  let ?w = "rq_container (requests pool ! rid)"
  let ?p1 = "update_object pool ?w (\<lambda>c. c\<lparr>wc_killed := True\<rparr>)"
  let ?p2 = "?p1\<lparr>containers := (containers ?p1)(wc_folder (objects pool ! ?w) := None)\<rparr>"
  have 1: "pool_inv ?p1" by (rule pool_inv_update_flags [OF assms]) simp_all
  have 2: "pool_inv ?p2" by (rule pool_inv_containers [OF 1]) simp
  have "pool_inv (fst (cleanupAndResolve ?p2 rid))"
    by (rule pool_inv_cleanup [OF 2]) (use True in \<open>simp add: update_object_simps\<close>)
  then show ?thesis using True by (simp add: Let_def)
qed

lemma pool_inv_exit:
  assumes "pool_inv pool"
  shows "pool_inv (fst (poolStep warmTimeout pool (Exit w)))"
proof (cases "w < length (objects pool) \<and> \<not> wc_exited (objects pool ! w)")
  case False
  then show ?thesis using assms by auto
next
  case True
  let ?p1 = "update_object pool w (\<lambda>c. c\<lparr>wc_exited := True\<rparr>)"
  let ?p2 = "case wc_resolveMessage (objects pool ! w) of None \<Rightarrow> ?p1
             | Some rid \<Rightarrow> fst (cleanupAndResolve ?p1 rid)"
  have 1: "pool_inv ?p1" by (rule pool_inv_update_flags [OF assms]) simp_all
  have 2: "pool_inv ?p2"
  proof (cases "wc_resolveMessage (objects pool ! w)")
    case None
    then show ?thesis using 1 by simp
  next
    case (Some rid)
    have "rid < length (requests ?p1)"
      using pool_invD(4) [OF assms _ Some] True by (simp add: update_object_simps)
    then show ?thesis using Some pool_inv_cleanup [OF 1] by simp
  qed
  have "pool_inv (?p2\<lparr>containers := (containers ?p2)(wc_folder (objects pool ! w) := None)\<rparr>)"
    by (rule pool_inv_containers [OF 2]) simp
  then show ?thesis using True 1 by (simp add: Let_def)
qed

lemma pool_inv_idle_reap:
  assumes "pool_inv pool"
  shows "pool_inv (fst (poolStep warmTimeout pool (IdleReap fld)))"
proof (cases "containers pool fld")
  case None
  then show ?thesis using assms by simp
next
  case (Some w)
  let ?p1 = "update_object pool w (\<lambda>c. c\<lparr>wc_killed := True\<rparr>)"
  have 1: "pool_inv ?p1" by (rule pool_inv_update_flags [OF assms]) simp_all
  have "pool_inv (?p1\<lparr>containers := (containers ?p1)(fld := None)\<rparr>)"
    by (rule pool_inv_containers [OF 1]) simp
  then show ?thesis using Some assms by (simp add: update_object_simps)
qed

lemma pool_inv_step:
  assumes "pool_inv pool"
  shows "pool_inv (fst (poolStep warmTimeout pool event))"
proof (cases event)
  case (RunRequest fld)
  then show ?thesis using pool_inv_run_request [OF assms] by simp
next
  case (StderrReady w)
  have "pool_inv (update_object pool w (\<lambda>c. c\<lparr>wc_ready := True\<rparr>))"
    by (rule pool_inv_update_flags [OF assms]) simp_all
  then show ?thesis using StderrReady assms by simp
next
  case (SpawnPoll w)
  then show ?thesis using pool_inv_spawn_poll [OF assms] by simp
next
  case (SpawnTimeout w)
  have "pool_inv (update_object pool w (\<lambda>c. c\<lparr>wc_killed := True, wc_spawnFailed := True\<rparr>))"
    by (rule pool_inv_update_flags [OF assms]) simp_all
  then show ?thesis using SpawnTimeout assms by simp
next
  case (StdoutOutput w)
  show ?thesis
  proof (cases "wc_resolveMessage (objects pool ! w)")
    case None
    then show ?thesis using StdoutOutput assms by simp
  next
    case (Some rid)
    show ?thesis
    proof (cases "w < length (objects pool)")
      case True
      then have "rid < length (requests pool)" using pool_invD(4) [OF assms True Some] by simp
      then show ?thesis using StdoutOutput Some assms pool_inv_cleanup [OF assms] by simp
    next
      case False
      then show ?thesis using StdoutOutput assms by simp
    qed
  qed
next
  case (RequestTimeout rid)
  then show ?thesis using pool_inv_request_timeout [OF assms] by simp
next
  case (WriteError rid)
  then show ?thesis using assms pool_inv_cleanup [OF assms] by simp
next
  case (Exit w)
  then show ?thesis using pool_inv_exit [OF assms] by simp
next
  case (IdleReap fld)
  then show ?thesis using pool_inv_idle_reap [OF assms] by simp
qed

lemma pool_inv_run:
  "pool_inv pool \<Longrightarrow> pool_inv (poolRun warmTimeout evs pool)"
  unfolding poolRun_def
  by (induction evs arbitrary: pool) (simp_all add: pool_inv_step)

lemma pool_inv_reachable: "pool_inv (poolRun warmTimeout evs new_pool)"
  by (rule pool_inv_run [OF pool_inv_new])

text \<open>
  What the pool keeps of the claim, in every state the handlers reach from the empty
  pool: at most one request is in flight on an object; a request is sent to an object
  only when the object is ready and not processing; and a run request for a folder
  whose map entry is processing is served by a cold container.
\<close>

lemma distinct_single_length:
  assumes "distinct xs" and "set xs \<subseteq> {r}"
  shows "length xs \<le> 1"
proof -
  have "length xs = card (set xs)" using assms(1) by (simp add: distinct_card)
  also have "\<dots> \<le> card {r}" by (rule card_mono) (use assms(2) in simp_all)
  finally show ?thesis by simp
qed

lemma inFlight_at_most_one:
  assumes "pool_inv pool"
  shows "length (inFlight pool w) \<le> 1"
proof -
  have "set (inFlight pool w) \<subseteq> {the (wc_resolveMessage (objects pool ! w))}"
  proof
    fix rid assume "rid \<in> set (inFlight pool w)"
    then have a: "rid < length (requests pool)" "rq_container (requests pool ! rid) = w"
      "\<not> rq_resolved (requests pool ! rid)"
      by (simp_all add: inFlight_def)
    have "wc_resolveMessage (objects pool ! w) = Some rid"
      using pool_invD(2) [OF assms a(1) a(3)] a(2) by simp
    then show "rid \<in> {the (wc_resolveMessage (objects pool ! w))}" by simp
  qed
  moreover have "distinct (inFlight pool w)" by (simp add: inFlight_def)
  ultimately show ?thesis by (rule distinct_single_length [rotated])
qed

lemma inFlight_reachable: "length (inFlight (poolRun warmTimeout evs new_pool) w) \<le> 1"
  by (rule inFlight_at_most_one [OF pool_inv_reachable])

lemma sent_warm_ready:
  assumes "pool_inv pool" and "poolStep warmTimeout pool event = (pool', SentWarm w rid)"
  shows "w < length (objects pool) \<and> wc_ready (objects pool ! w) \<and>
         \<not> wc_processing (objects pool ! w)"
proof (cases event)
  case (RunRequest fld)
  then show ?thesis
    using assms(2) pool_invD(6) [OF assms(1), of fld]
    by (auto simp: sendToWarmContainer_def spawnWarmContainer_def Let_def
        split: if_splits option.splits)
next
  case (SpawnPoll x)
  then show ?thesis
    using assms(2) pool_invD(5) [OF assms(1), of x]
    by (auto simp: sendToWarmContainer_def Let_def split: if_splits)
next
  case (StdoutOutput x)
  then show ?thesis
    using assms(2) by (auto simp: cleanupAndResolve_def Let_def split: if_splits option.splits)
next
  case (RequestTimeout x)
  then show ?thesis
    using assms(2) by (auto simp: cleanupAndResolve_def Let_def split: if_splits)
next
  case (WriteError x)
  then show ?thesis
    using assms(2) by (auto simp: cleanupAndResolve_def Let_def split: if_splits)
next
  case (Exit x)
  then show ?thesis
    using assms(2) by (auto simp: Let_def split: if_splits)
next
  case (IdleReap x)
  then show ?thesis
    using assms(2) by (auto split: if_splits option.splits)
qed (use assms(2) in \<open>auto split: if_splits\<close>)

lemma busy_in_map_served_cold:
  assumes "containers pool fld = Some w" and "wc_processing (objects pool ! w)"
    and "0 < warmTimeout"
  shows "poolStep warmTimeout pool (RunRequest fld) = (pool, ServedCold)"
  using assms by simp

text \<open>
  Claim C6 says that the pool never has two warm workers for a folder, and that a run
  request for a folder whose warm worker is processing is served by a cold container.
  The code enters a worker in the map only once its readiness handshake is over, and
  its exit handler removes the entry of the folder, whichever worker the entry holds.
  Two run requests for \<open>family-chat\<close>, the second while the spawn of the first is
  waiting for readiness, each spawn a worker, and both workers pass the handshake and
  take a request: the folder has the two warm workers 0 and 1, and the map keeps
  worker 1 only. When worker 0 has answered and exits, its handler removes the entry
  of worker 1, which is still processing request 1; the next run request for the
  folder finds no entry and spawns a third warm worker instead of a cold container.
\<close>

theorem two_warm_workers_for_one_folder:
  "warmWorkers (poolRun 1800000 two_spawns new_pool) ''family-chat'' = [0, 1] \<and>
   inFlight (poolRun 1800000 two_spawns new_pool) 0 = [0] \<and>
   inFlight (poolRun 1800000 two_spawns new_pool) 1 = [1] \<and>
   containers (poolRun 1800000 two_spawns new_pool) ''family-chat'' = Some 1 \<and>
   containers (poolRun 1800000 orphan_exit new_pool) ''family-chat'' = None \<and>
   warmWorkers (poolRun 1800000 orphan_exit new_pool) ''family-chat'' = [1] \<and>
   wc_processing (objects (poolRun 1800000 orphan_exit new_pool) ! 1) \<and>
   inFlight (poolRun 1800000 orphan_exit new_pool) 1 = [1] \<and>
   snd (poolStep 1800000 (poolRun 1800000 orphan_exit new_pool) (RunRequest ''family-chat''))
     = SpawnStarted 2"
  by code_simp

end
